theory Spec2Isabelle
  imports Complex_Main "HOL-Library.Signed_Division" "HOL-Library.Multiset"
    "HOL-Library.Product_Lexorder"
begin

section \<open>Numbers: int and float\<close>

text \<open>
  Conventions of the embedding.
  \<^item> A C++ \<open>int\<close> is an \<open>int\<close>; \<open>/\<close> and \<open>%\<close> of the source are \<open>sdiv\<close> and
    \<open>smod\<close> (truncation towards zero).  Where a sum, difference or product of the source
    can leave the 32-bit range it is written \<open>add32\<close>, \<open>sub32\<close>, \<open>mul32\<close>, \<open>neg32\<close>:
    the result wraps around, as it does in the compiled code (the language leaves signed
    overflow undefined).  Everywhere else the operands keep the result in range.
  \<^item> A C++ \<open>float\<close> is a value of the type \<open>float\<close> below: IEEE 754 single precision.
  \<^item> Every fault of the source is a value of type \<open>error\<close>; a function that can fault
    returns \<open>error + 'a\<close>, with \<open>Inl\<close> for the fault.  A function with a loop that need not
    end returns an \<open>option\<close> of that, and \<open>None\<close> is the run that never returns.
  \<^item> \<open>parallel_for\<close> is a sequential loop over the same index range.
  \<^item> Storage is taken to be available: no allocation fails for lack of memory.
\<close>

datatype error =
    DivisionByZero     \<comment> \<open>integer division by zero\<close>
  | OutOfBounds        \<comment> \<open>coefficient or vector access outside the allocated range\<close>
  | out_of_range       \<comment> \<open>the exception thrown by the writing overload of \<open>pixel\<close>\<close>
  | BadChannel         \<comment> \<open>\<open>Color4::operator[]\<close> with an index outside 0..3\<close>
  | BadSize            \<comment> \<open>a raster constructed with a negative dimension\<close>
  | BadConversion      \<comment> \<open>a \<open>float\<close> converted to \<open>int\<close> that no \<open>int\<close> can hold\<close>
  | length_error       \<comment> \<open>the exception thrown by \<open>vector::reserve\<close>\<close>

definition bind_err :: "error + 'a \<Rightarrow> ('a \<Rightarrow> error + 'b) \<Rightarrow> error + 'b" where
  "bind_err m f = (case m of Inl e \<Rightarrow> Inl e | Inr v \<Rightarrow> f v)"

subsection \<open>32-bit int\<close>

definition wrap32 :: "int \<Rightarrow> int" where
  "wrap32 v = (v + 2 ^ 31) mod 2 ^ 32 - 2 ^ 31"

definition add32 :: "int \<Rightarrow> int \<Rightarrow> int" where
  "add32 a b = wrap32 (a + b)"

definition sub32 :: "int \<Rightarrow> int \<Rightarrow> int" where
  "sub32 a b = wrap32 (a - b)"

definition mul32 :: "int \<Rightarrow> int \<Rightarrow> int" where
  "mul32 a b = wrap32 (a * b)"

definition neg32 :: "int \<Rightarrow> int" where
  "neg32 a = wrap32 (- a)"

subsection \<open>Single-precision float\<close>

text \<open>
  Rounding of a real number to single precision.  \<open>expo x\<close> is the binary exponent of
  \<open>x\<close>, kept within \<open>-126 .. 127\<close> (found by counting down from 127), so that
  \<open>2 powi (expo x - 23)\<close> is the distance of neighbouring numbers with 24 significant bits
  around \<open>x\<close>, also for the subnormal ones.  \<open>rne\<close> rounds to the nearest of them, a tie
  to the one with the even significand.
\<close>

fun expo_from :: "nat \<Rightarrow> int \<Rightarrow> real \<Rightarrow> int" where
  "expo_from 0 e a = e"
| "expo_from (Suc n) e a = (if 2 powi e \<le> a then e else expo_from n (e - 1) a)"

definition expo :: "real \<Rightarrow> int" where
  "expo x = expo_from 253 127 \<bar>x\<bar>"

definition round_even :: "real \<Rightarrow> int" where
  "round_even q =
     (let f = \<lfloor>q\<rfloor>; d = q - of_int f
      in if d < 1 / 2 then f else if 1 / 2 < d then f + 1
         else if even f then f else f + 1)"

definition rne :: "real \<Rightarrow> real" where
  "rne x = of_int (round_even (x / 2 powi (expo x - 23))) * 2 powi (expo x - 23)"

text \<open>
  A \<open>float\<close> is a finite number, an infinity or NaN.  Zero carries no sign here: \<open>-0\<close> and
  \<open>+0\<close> are both \<open>Finite 0\<close>, and a division by zero has the sign of the dividend (in the
  functions below the divisors are converted \<open>int\<close>s and sums of weights).  The type also
  holds \<open>Finite x\<close> for reals \<open>x\<close> that single precision cannot represent; \<open>is_float\<close>
  holds of the values a \<open>float\<close> variable can have.  Every operation rounds its exact
  result once (no fused or extended-precision evaluation); a result of magnitude
  \<open>2^128\<close> or more after rounding is an infinity.
\<close>

datatype float = Finite real | PInf | NInf | NaN

instantiation float :: "{zero, one}"
begin

definition zero_float :: float where
  "zero_float = Finite 0"

definition one_float :: float where
  "one_float = Finite 1"

instance ..

end

fun is_float :: "float \<Rightarrow> bool" where
  "is_float (Finite x) = (rne x = x \<and> \<bar>x\<bar> < 2 ^ 128)"
| "is_float a = True"

definition round32 :: "real \<Rightarrow> float" where
  "round32 x =
     (let r = rne x
      in if 2 ^ 128 \<le> r then PInf else if r \<le> - (2 ^ 128) then NInf else Finite r)"

fun fneg :: "float \<Rightarrow> float" where
  "fneg (Finite x) = Finite (- x)"
| "fneg PInf = NInf"
| "fneg NInf = PInf"
| "fneg NaN = NaN"

fun fabs :: "float \<Rightarrow> float" where
  "fabs (Finite x) = Finite \<bar>x\<bar>"
| "fabs PInf = PInf"
| "fabs NInf = PInf"
| "fabs NaN = NaN"

fun fadd :: "float \<Rightarrow> float \<Rightarrow> float" where
  "fadd (Finite x) (Finite y) = round32 (x + y)"
| "fadd NaN b = NaN"
| "fadd a NaN = NaN"
| "fadd PInf NInf = NaN"
| "fadd NInf PInf = NaN"
| "fadd PInf b = PInf"
| "fadd a PInf = PInf"
| "fadd NInf b = NInf"
| "fadd a NInf = NInf"

definition fsub :: "float \<Rightarrow> float \<Rightarrow> float" where
  "fsub a b = fadd a (fneg b)"

fun fmul :: "float \<Rightarrow> float \<Rightarrow> float" where
  "fmul (Finite x) (Finite y) = round32 (x * y)"
| "fmul NaN b = NaN"
| "fmul a NaN = NaN"
| "fmul (Finite x) PInf = (if x = 0 then NaN else if 0 < x then PInf else NInf)"
| "fmul (Finite x) NInf = (if x = 0 then NaN else if 0 < x then NInf else PInf)"
| "fmul PInf (Finite y) = (if y = 0 then NaN else if 0 < y then PInf else NInf)"
| "fmul NInf (Finite y) = (if y = 0 then NaN else if 0 < y then NInf else PInf)"
| "fmul PInf PInf = PInf"
| "fmul NInf NInf = PInf"
| "fmul PInf NInf = NInf"
| "fmul NInf PInf = NInf"

fun fdiv :: "float \<Rightarrow> float \<Rightarrow> float" where
  "fdiv (Finite x) (Finite y) =
     (if y = 0 then (if x = 0 then NaN else if 0 < x then PInf else NInf)
      else round32 (x / y))"
| "fdiv NaN b = NaN"
| "fdiv a NaN = NaN"
| "fdiv (Finite x) b = Finite 0"
| "fdiv PInf (Finite y) = (if 0 \<le> y then PInf else NInf)"
| "fdiv NInf (Finite y) = (if 0 \<le> y then NInf else PInf)"
| "fdiv a b = NaN"

text \<open>\<open>a < b\<close> and \<open>a <= b\<close> on \<open>float\<close>: false as soon as one side is NaN.\<close>

fun fless :: "float \<Rightarrow> float \<Rightarrow> bool" where
  "fless (Finite x) (Finite y) = (x < y)"
| "fless NaN b = False"
| "fless a NaN = False"
| "fless a NInf = False"
| "fless PInf b = False"
| "fless a b = True"

fun fle :: "float \<Rightarrow> float \<Rightarrow> bool" where
  "fle (Finite x) (Finite y) = (x \<le> y)"
| "fle NaN b = False"
| "fle a NaN = False"
| "fle NInf b = True"
| "fle a PInf = True"
| "fle a b = False"

text \<open>\<open>std::floor\<close>, \<open>std::ceil\<close>, and the conversions between \<open>int\<close> and \<open>float\<close>.\<close>

fun ffloor :: "float \<Rightarrow> float" where
  "ffloor (Finite x) = Finite (of_int \<lfloor>x\<rfloor>)"
| "ffloor a = a"

fun fceil :: "float \<Rightarrow> float" where
  "fceil (Finite x) = Finite (of_int \<lceil>x\<rceil>)"
| "fceil a = a"

definition float_of_int :: "int \<Rightarrow> float" where
  "float_of_int i = round32 (of_int i)"

text \<open>
  \<open>(int) a\<close>: the value truncated towards zero.  The language defines no result where
  that is not an \<open>int\<close> (also for an infinity and NaN): a fault here.
\<close>

definition int_of_float :: "float \<Rightarrow> error + int" where
  "int_of_float a =
     (case a of
        Finite x \<Rightarrow>
          (let t = (if 0 \<le> x then \<lfloor>x\<rfloor> else \<lceil>x\<rceil>)
           in if - (2 ^ 31) \<le> t \<and> t < 2 ^ 31 then Inr t else Inl BadConversion)
      | _ \<Rightarrow> Inl BadConversion)"

text \<open>
  The order of the values that are not NaN, as a key for sorting: \<open>NInf\<close> below every
  finite number below \<open>PInf\<close> (pairs are ordered lexicographically).
\<close>

fun forder :: "float \<Rightarrow> int \<times> real" where
  "forder NInf = (0, 0)"
| "forder (Finite x) = (1, x)"
| "forder PInf = (2, 0)"
| "forder NaN = (3, 0)"

section \<open>Pixels, rasters and border-aware access (hdrimage.cpp)\<close>

text \<open>
  \<open>Color4\<close>: the four channels r, g, b, a of the source (the selectors are named
  \<open>cr\<close>, \<open>cg\<close>, \<open>cb\<close>, \<open>ca\<close>, since single letters are wanted for variables).
\<close>

datatype Color4 = Color4 (cr: float) (cg: float) (cb: float) (ca: float)

text \<open>
  Modelled from the spec: the arithmetic of \<open>Color4\<close> (color.h is not among the sources).
  "Pixel: 4 floating-point channels (R, G, B, A), supporting elementwise arithmetic
  (+, -, *, / by scalar or pixel)".  \<open>addC\<close> and \<open>subC\<close> are \<open>+\<close> and \<open>-\<close> of two
  pixels, \<open>scaleC\<close> is \<open>Color4 * float\<close> and \<open>mulC\<close> is \<open>Color4 * Color4\<close>.
  Modelled from the spec: the constructor \<open>Color4(float)\<close>, also used by the conversion
  in \<open>imFilter(0, y) = 0\<close>, puts the value into all four channels (the box blur is
  "normalized by window size", with no channel treated apart).
\<close>

definition addC :: "Color4 \<Rightarrow> Color4 \<Rightarrow> Color4" where
  "addC p q = Color4 (fadd (cr p) (cr q)) (fadd (cg p) (cg q)) (fadd (cb p) (cb q)) (fadd (ca p) (ca q))"


definition scaleC :: "Color4 \<Rightarrow> float \<Rightarrow> Color4" where
  "scaleC p s = Color4 (fmul (cr p) s) (fmul (cg p) s) (fmul (cb p) s) (fmul (ca p) s)"


definition Color4_gray :: "float \<Rightarrow> Color4" where
  "Color4_gray c = Color4 c c c c"

text \<open>\<open>const Color4 g_blackPixel(0,0,0,0);\<close>\<close>

definition g_blackPixel :: Color4 where
  "g_blackPixel = Color4 0 0 0 0"

text \<open>\<open>Color4::operator[]\<close>: channel \<open>i\<close> of a pixel, read and written.\<close>

definition channel :: "Color4 \<Rightarrow> int \<Rightarrow> error + float" where
  "channel p i =
     (if i = 0 then Inr (cr p) else if i = 1 then Inr (cg p)
      else if i = 2 then Inr (cb p) else if i = 3 then Inr (ca p)
      else Inl BadChannel)"

definition set_channel :: "Color4 \<Rightarrow> int \<Rightarrow> float \<Rightarrow> error + Color4" where
  "set_channel p i v =
     (if i = 0 then Inr (Color4 v (cg p) (cb p) (ca p))
      else if i = 1 then Inr (Color4 (cr p) v (cb p) (ca p))
      else if i = 2 then Inr (Color4 (cr p) (cg p) v (ca p))
      else if i = 3 then Inr (Color4 (cr p) (cg p) (cb p) v)
      else Inl BadChannel)"

datatype BorderMode = BLACK | EDGE | REPEAT | MIRROR

text \<open>
  \<open>HDRImage\<close>: a \<open>width \<times> height\<close> array of pixels, addressed \<open>(x, y)\<close>.  The store is a
  function of the two coordinates; only the cells with \<open>0 \<le> x < width\<close> and
  \<open>0 \<le> y < height\<close> exist in the source, and every access checks that (\<open>coeff\<close>).
\<close>

record HDRImage =
  width :: int
  height :: int
  data :: "int \<Rightarrow> int \<Rightarrow> Color4"

definition in_bounds :: "HDRImage \<Rightarrow> int \<Rightarrow> int \<Rightarrow> bool" where
  "in_bounds img x y = (0 \<le> x \<and> x < width img \<and> 0 \<le> y \<and> y < height img)"

text \<open>\<open>(*this)(x, y)\<close>, read and written.\<close>

definition coeff :: "HDRImage \<Rightarrow> int \<Rightarrow> int \<Rightarrow> error + Color4" where
  "coeff img x y = (if in_bounds img x y then Inr (data img x y) else Inl OutOfBounds)"

definition set_coeff :: "HDRImage \<Rightarrow> int \<Rightarrow> int \<Rightarrow> Color4 \<Rightarrow> error + HDRImage" where
  "set_coeff img x y v =
     (if in_bounds img x y
      then Inr (img\<lparr>data := (\<lambda>i j. if i = x \<and> j = y then v else data img i j)\<rparr>)
      else Inl OutOfBounds)"

text \<open>\<open>HDRImage()\<close>: the empty raster.\<close>

definition emptyImage :: HDRImage where
  "emptyImage = \<lparr>width = 0, height = 0, data = (\<lambda>i j. g_blackPixel)\<rparr>"

subsection \<open>Helpers of common.h\<close>

text \<open>
  Modelled from the spec: \<open>clamp\<close> and \<open>mod\<close> of common.h, which is not among the
  sources.  "EDGE clamps to [0,dim-1].  REPEAT wraps modulo dim."  \<open>mod\<close> is an integer
  remainder made non-negative; with a zero modulus it divides by zero.
\<close>

definition clamp :: "int \<Rightarrow> int \<Rightarrow> int \<Rightarrow> int" where
  "clamp a l h = (if l \<le> a then (if a \<le> h then a else h) else l)"

definition mod_int :: "int \<Rightarrow> int \<Rightarrow> error + int" where
  "mod_int a b = (if b = 0 then Inl DivisionByZero else Inr (a mod b))"

text \<open>
  \<open>::abs(p)\<close> on a 32-bit \<open>int\<close>: the absolute value, except that the most negative
  value has none and is returned as it is.
\<close>

definition c_abs :: "int \<Rightarrow> int" where
  "c_abs p = (if p = - 2147483648 then p else \<bar>p\<bar>)"

subsection \<open>wrapCoord and pixel\<close>

definition wrapCoord :: "int \<Rightarrow> int \<Rightarrow> BorderMode \<Rightarrow> error + int" where
  "wrapCoord p maxP m =
     (if 0 \<le> p \<and> p < maxP then Inr p
      else case m of
        EDGE \<Rightarrow> Inr (clamp p 0 (maxP - 1))
      | REPEAT \<Rightarrow> mod_int p maxP
      | MIRROR \<Rightarrow>
          bind_err (mod_int p maxP) (\<lambda>frac.
            if maxP = 0 then Inl DivisionByZero
            else Inr (if (c_abs p sdiv maxP) smod 2 \<noteq> 0 then maxP - 1 - frac else frac))
      | BLACK \<Rightarrow> Inr (- 1))"

text \<open>The reading overload of \<open>HDRImage::pixel\<close>.\<close>

definition pixel :: "HDRImage \<Rightarrow> int \<Rightarrow> int \<Rightarrow> BorderMode \<Rightarrow> BorderMode \<Rightarrow> error + Color4" where
  "pixel img x y mX mY =
     bind_err (wrapCoord x (width img) mX) (\<lambda>x'.
     bind_err (wrapCoord y (height img) mY) (\<lambda>y'.
       if x' < 0 \<or> y' < 0 then Inr g_blackPixel else coeff img x' y'))"

text \<open>
  The writing overload returns a reference: \<open>pixel_ref\<close> is the cell it refers to, and
  \<open>pixel_write\<close> is an assignment through it.
\<close>

definition pixel_ref :: "HDRImage \<Rightarrow> int \<Rightarrow> int \<Rightarrow> BorderMode \<Rightarrow> BorderMode \<Rightarrow> error + (int \<times> int)" where
  "pixel_ref img x y mX mY =
     bind_err (wrapCoord x (width img) mX) (\<lambda>x'.
     bind_err (wrapCoord y (height img) mY) (\<lambda>y'.
       if x' < 0 \<or> y' < 0 then Inl out_of_range
       else if in_bounds img x' y' then Inr (x', y') else Inl OutOfBounds))"

definition pixel_write :: "HDRImage \<Rightarrow> int \<Rightarrow> int \<Rightarrow> BorderMode \<Rightarrow> BorderMode \<Rightarrow> Color4 \<Rightarrow> error + HDRImage" where
  "pixel_write img x y mX mY v =
     bind_err (pixel_ref img x y mX mY) (\<lambda>(x', y'). set_coeff img x' y' v)"

text \<open>
  The reflection the specification describes for MIRROR: the reflected offset when
  \<open>\<lfloor>p/maxP\<rfloor>\<close> is odd and the direct offset when it is even.
\<close>

definition mirror_spec :: "int \<Rightarrow> int \<Rightarrow> int" where
  "mirror_spec p maxP = (if odd (p div maxP) then maxP - 1 - p mod maxP else p mod maxP)"


text \<open>A 2 by 1 raster used to instantiate the theorems below.\<close>

definition img21 :: HDRImage where
  "img21 = \<lparr>width = 2, height = 1,
            data = (\<lambda>i j. if i = 0 then Color4 (Finite 1) (Finite 2) (Finite 3) (Finite 4)
                          else Color4 (Finite 5) (Finite 6) (Finite 7) (Finite 8))\<rparr>"

text \<open>
  The value a border-aware read returns where it does not fault (used in statements
  about rasters with a pixel, where no read faults: \<open>pixel_defined\<close>).
\<close>

definition pixelv :: "HDRImage \<Rightarrow> int \<Rightarrow> int \<Rightarrow> BorderMode \<Rightarrow> BorderMode \<Rightarrow> Color4" where
  "pixelv img x y mX mY = (case pixel img x y mX mY of Inl e \<Rightarrow> g_blackPixel | Inr c \<Rightarrow> c)"

text \<open>
  A pixel whose channels are \<open>float\<close> values, and one whose channels are finite \<open>float\<close>
  values (no infinity, no NaN).
\<close>

definition is_Color4 :: "Color4 \<Rightarrow> bool" where
  "is_Color4 p = (is_float (cr p) \<and> is_float (cg p) \<and> is_float (cb p) \<and> is_float (ca p))"

fun is_finite :: "float \<Rightarrow> bool" where
  "is_finite (Finite x) = (rne x = x \<and> \<bar>x\<bar> < 2 ^ 128)"
| "is_finite a = False"

definition finiteC :: "Color4 \<Rightarrow> bool" where
  "finiteC p = (is_finite (cr p) \<and> is_finite (cg p) \<and> is_finite (cb p) \<and> is_finite (ca p))"

section \<open>Loops\<close>

text \<open>
  A \<open>for\<close> loop over an index range: the body is run for each index in turn on the
  state, and the first fault ends the loop.
\<close>

fun for_each :: "'i list \<Rightarrow> ('i \<Rightarrow> 's \<Rightarrow> error + 's) \<Rightarrow> 's \<Rightarrow> error + 's" where
  "for_each [] body s = Inr s"
| "for_each (i # is) body s = bind_err (body i s) (for_each is body)"

text \<open>
  The same with a body that may run forever.
\<close>

fun for_each_partial :: "'i list \<Rightarrow> ('i \<Rightarrow> 's \<Rightarrow> (error + 's) option) \<Rightarrow> 's \<Rightarrow> (error + 's) option" where
  "for_each_partial [] body s = Some (Inr s)"
| "for_each_partial (i # is) body s =
     (case body i s of
        None \<Rightarrow> None
      | Some (Inl e) \<Rightarrow> Some (Inl e)
      | Some (Inr s') \<Rightarrow> for_each_partial is body s')"



section \<open>Sampling (hdrimage.cpp)\<close>

text \<open>
  Modelled from the spec: \<open>lerp\<close> of common.h, which is not among the sources.
  "standard 4-tap bilinear blend using fractional parts": \<open>(1 - t) * a + t * b\<close>.
\<close>

definition lerp :: "Color4 \<Rightarrow> Color4 \<Rightarrow> float \<Rightarrow> Color4" where
  "lerp a b t = addC (scaleC a (fsub 1 t)) (scaleC b t)"

definition bilinear :: "HDRImage \<Rightarrow> float \<Rightarrow> float \<Rightarrow> BorderMode \<Rightarrow> BorderMode \<Rightarrow> error + Color4" where
  "bilinear img sx sy mX mY =
     (let sx1 = fsub sx (Finite (1 / 2)); sy1 = fsub sy (Finite (1 / 2))
      in bind_err (int_of_float (ffloor sx1)) (\<lambda>x0.
         bind_err (int_of_float (ffloor sy1)) (\<lambda>y0.
           let x1 = add32 x0 1; y1 = add32 y0 1;
               fx = fsub sx1 (float_of_int x0); fy = fsub sy1 (float_of_int y0)
           in bind_err (pixel img x0 y0 mX mY) (\<lambda>p00.
              bind_err (pixel img x1 y0 mX mY) (\<lambda>p10.
              bind_err (pixel img x0 y1 mX mY) (\<lambda>p01.
              bind_err (pixel img x1 y1 mX mY) (\<lambda>p11.
                Inr (lerp (lerp p00 p10 fx) (lerp p01 p11 fx) fy))))))))"

text \<open>
  The weight of one tap of \<open>bicubic\<close> at distance \<open>d\<close>, with \<open>A = -0.75f\<close>; the source
  writes the expression twice, for \<open>disty\<close> and for \<open>distx\<close>:
  \<open>((A + 2.0f) * d - (A + 3.0f)) * d * d + 1.0f\<close> for \<open>d <= 1\<close> and
  \<open>((A * d - 5.0f * A) * d + 8.0f * A) * d - 4.0f * A\<close> otherwise.
\<close>

definition cubic_weight :: "float \<Rightarrow> float" where
  "cubic_weight d =
     (let A = Finite (- (3 / 4))
      in if fle d 1
         then fadd (fmul (fmul (fsub (fmul (fadd A (Finite 2)) d) (fadd A (Finite 3))) d) d) 1
         else fsub (fmul (fadd (fmul (fsub (fmul A d) (fmul (Finite 5) A)) d) (fmul (Finite 8) A)) d)
                   (fmul (Finite 4) A))"

text \<open>
  The inner loop of \<open>bicubic\<close> over \<open>x\<close>, and the outer loop over \<open>y\<close>; the accumulator
  is the pair \<open>(val, totalweight)\<close>.
\<close>

fun bicubic_row :: "HDRImage \<Rightarrow> float \<Rightarrow> float \<Rightarrow> int \<Rightarrow> BorderMode \<Rightarrow> BorderMode \<Rightarrow> int list \<Rightarrow>
    Color4 \<times> float \<Rightarrow> error + (Color4 \<times> float)" where
  "bicubic_row img sx yweight y mX mY [] acc = Inr acc"
| "bicubic_row img sx yweight y mX mY (x # xs) acc =
     bind_err (pixel img x y mX mY) (\<lambda>p.
       let weight = fmul (cubic_weight (fabs (fsub sx (float_of_int x)))) yweight
       in bicubic_row img sx yweight y mX mY xs
            (addC (fst acc) (scaleC p weight), fadd (snd acc) weight))"

fun bicubic_rows :: "HDRImage \<Rightarrow> float \<Rightarrow> float \<Rightarrow> int \<Rightarrow> BorderMode \<Rightarrow> BorderMode \<Rightarrow> int list \<Rightarrow>
    Color4 \<times> float \<Rightarrow> error + (Color4 \<times> float)" where
  "bicubic_rows img sx sy bx mX mY [] acc = Inr acc"
| "bicubic_rows img sx sy bx mX mY (y # ys) acc =
     bind_err (bicubic_row img sx (cubic_weight (fabs (fsub sy (float_of_int y)))) y mX mY
                 [sub32 bx 1..add32 bx 3 - 1] acc)
       (bicubic_rows img sx sy bx mX mY ys)"

definition bicubic :: "HDRImage \<Rightarrow> float \<Rightarrow> float \<Rightarrow> BorderMode \<Rightarrow> BorderMode \<Rightarrow> error + Color4" where
  "bicubic img sx sy mX mY =
     (let sx1 = fsub sx (Finite (1 / 2)); sy1 = fsub sy (Finite (1 / 2))
      in bind_err (int_of_float (ffloor sx1)) (\<lambda>bx.
         bind_err (int_of_float (ffloor sy1)) (\<lambda>by.
         bind_err (bicubic_rows img sx1 sy1 bx mX mY [sub32 by 1..add32 by 3 - 1]
                     (Color4 0 0 0 0, 0))
           (\<lambda>acc. Inr (scaleC (fst acc) (fdiv 1 (snd acc)))))))"

text \<open>
  A pixel centre \<open>i + 0.5\<close> as a \<open>float\<close> (it is one for \<open>0 \<le> i < 2^23\<close>), and the taps of
  the two samplers around pixel \<open>(i, j)\<close> other than the one at the pixel itself.
\<close>

definition center :: "int \<Rightarrow> float" where
  "center i = Finite (of_int i + 1 / 2)"

definition bilinear_taps :: "HDRImage \<Rightarrow> int \<Rightarrow> int \<Rightarrow> BorderMode \<Rightarrow> BorderMode \<Rightarrow> Color4 list" where
  "bilinear_taps img i j mX mY =
     [pixelv img (i + 1) j mX mY, pixelv img i (j + 1) mX mY, pixelv img (i + 1) (j + 1) mX mY]"

definition bicubic_taps :: "HDRImage \<Rightarrow> int \<Rightarrow> int \<Rightarrow> BorderMode \<Rightarrow> BorderMode \<Rightarrow> Color4 list" where
  "bicubic_taps img i j mX mY =
     [pixelv img x y mX mY. y \<leftarrow> [j - 1..j + 2], x \<leftarrow> [i - 1..i + 2], (x, y) \<noteq> (i, j)]"

text \<open>A 3 by 1 raster with an infinity to the right of its middle pixel.\<close>

definition img31 :: HDRImage where
  "img31 = \<lparr>width = 3, height = 1,
            data = (\<lambda>i j. if i = 2 then Color4_gray PInf else Color4_gray (Finite 1))\<rparr>"

section \<open>Box blur (hdrimage.cpp)\<close>













text \<open>The 5 by 1 raster [1,2,3,4,5] and the 4 by 1 raster [2^25,1,1,1], the same value in every channel.\<close>

definition img51 :: HDRImage where
  "img51 = \<lparr>width = 5, height = 1, data = (\<lambda>i j. Color4_gray (Finite (of_int (i + 1))))\<rparr>"


text \<open>The raster with one cell replaced (what \<open>set_coeff\<close> returns in range).\<close>

definition upd :: "HDRImage \<Rightarrow> int \<Rightarrow> int \<Rightarrow> Color4 \<Rightarrow> HDRImage" where
  "upd img x y v = img\<lparr>data := (\<lambda>i j. if i = x \<and> j = y then v else data img i j)\<rparr>"

section \<open>Median filter (hdrimage.cpp)\<close>

text \<open>
  The body of the two neighbourhood loops of \<open>medianFiltered\<close> for the offset \<open>(i, j)\<close>:
  skip the offset when \<open>round\<close> is set and \<open>i*i + j*j > radius*radius\<close>, else push the
  channel of the border-aware pixel onto \<open>mBuffer\<close>.  The left side of the test is an
  \<open>int\<close>, converted to \<open>float\<close> for the comparison; the right side is a product of
  \<open>float\<close>s.  (The flag \<open>round\<close> of the source is \<open>rnd\<close> here.)
\<close>

definition medianFiltered_gather :: "HDRImage \<Rightarrow> float \<Rightarrow> int \<Rightarrow> BorderMode \<Rightarrow> BorderMode \<Rightarrow> bool \<Rightarrow>
    int \<Rightarrow> int \<Rightarrow> int \<Rightarrow> int \<Rightarrow> float list \<Rightarrow> error + float list" where
  "medianFiltered_gather img radius chan mX mY rnd x y i j mBuffer =
     (if rnd \<and> fless (fmul radius radius) (float_of_int (add32 (mul32 i i) (mul32 j j)))
      then Inr mBuffer
      else bind_err (pixel img (add32 x i) (add32 y j) mX mY) (\<lambda>p.
           bind_err (channel p chan) (\<lambda>v. Inr (mBuffer @ [v]))))"

text \<open>
  The inner loop, over \<open>j\<close>, for one \<open>i\<close>.
\<close>

definition medianFiltered_gather_column :: "HDRImage \<Rightarrow> float \<Rightarrow> int \<Rightarrow> int \<Rightarrow> BorderMode \<Rightarrow> BorderMode \<Rightarrow> bool \<Rightarrow>
    int \<Rightarrow> int \<Rightarrow> int \<Rightarrow> float list \<Rightarrow> error + float list" where
  "medianFiltered_gather_column img radius radiusi chan mX mY rnd x y i mBuffer =
     for_each [neg32 radiusi..radiusi] (medianFiltered_gather img radius chan mX mY rnd x y i) mBuffer"

text \<open>
  \<open>nth_element(begin, begin + med, end)\<close> followed by \<open>mBuffer[med]\<close>.  The standard
  library guarantees that the element at position \<open>med\<close> is then the one a full sort
  would put there, provided the comparison orders the elements, which \<open><\<close> does as long as
  none of them is NaN.  Two reads have no value defined by the language: that of a buffer
  holding NaN, and that of a position at or beyond \<open>size()\<close> but inside the reserved
  storage, which was never written (it happens when the buffer is empty: then
  \<open>med = (0 - 1) / 2 = 0\<close>).  The code returns from both; what it reads is the argument
  \<open>unspecified\<close>.  A position outside the storage is a fault.
\<close>

definition nth_element_at :: "(float list \<Rightarrow> float) \<Rightarrow> int \<Rightarrow> float list \<Rightarrow> int \<Rightarrow> error + float" where
  "nth_element_at unspecified capacity mBuffer med =
     (if 0 \<le> med \<and> med < int (length mBuffer)
      then Inr (if NaN \<in> set mBuffer then unspecified mBuffer
                else sort_key forder mBuffer ! nat med)
      else if 0 \<le> med \<and> med < capacity then Inr (unspecified mBuffer)
      else Inl OutOfBounds)"

text \<open>
  The body of the loop over \<open>x\<close>: gather, select, write the channel of \<open>tempBuffer(x, y)\<close>.
  \<open>int num = mBuffer.size()\<close> converts a \<open>size_t\<close> to \<open>int\<close>.
\<close>

definition medianFiltered_pixel :: "(int \<Rightarrow> int \<Rightarrow> float list \<Rightarrow> float) \<Rightarrow> HDRImage \<Rightarrow> float \<Rightarrow> int \<Rightarrow> int \<Rightarrow> int \<Rightarrow>
    BorderMode \<Rightarrow> BorderMode \<Rightarrow> bool \<Rightarrow> int \<Rightarrow> int \<Rightarrow> HDRImage \<Rightarrow> error + HDRImage" where
  "medianFiltered_pixel unspecified img radius radiusi capacity chan mX mY rnd y x tempBuffer =
     bind_err (for_each [neg32 radiusi..radiusi]
                 (medianFiltered_gather_column img radius radiusi chan mX mY rnd x y) [])
       (\<lambda>mBuffer.
          let num = wrap32 (int (length mBuffer)); med = (sub32 num 1) sdiv 2
          in bind_err (nth_element_at (unspecified x y) capacity mBuffer med) (\<lambda>v.
             bind_err (coeff tempBuffer x y) (\<lambda>p.
             bind_err (set_channel p chan v) (\<lambda>p'.
               set_coeff tempBuffer x y p'))))"

text \<open>
  The body of the loop over \<open>y\<close>: \<open>mBuffer.reserve((2*radiusi)*(2*radiusi))\<close>, which throws
  \<open>length_error\<close> when the product, converted to \<open>size_t\<close>, is beyond every possible
  size (it is when the \<open>int\<close> is negative), then the loop over \<open>x\<close>.
\<close>

definition medianFiltered_row :: "(int \<Rightarrow> int \<Rightarrow> float list \<Rightarrow> float) \<Rightarrow> HDRImage \<Rightarrow> float \<Rightarrow> int \<Rightarrow> int \<Rightarrow>
    BorderMode \<Rightarrow> BorderMode \<Rightarrow> bool \<Rightarrow> int \<Rightarrow> HDRImage \<Rightarrow> error + HDRImage" where
  "medianFiltered_row unspecified img radius radiusi chan mX mY rnd y tempBuffer =
     (let capacity = mul32 (mul32 2 radiusi) (mul32 2 radiusi)
      in if capacity < 0 then Inl length_error
         else for_each [0..width tempBuffer - 1]
                (medianFiltered_pixel unspecified img radius radiusi capacity chan mX mY rnd y)
                tempBuffer)"

definition medianFiltered :: "(int \<Rightarrow> int \<Rightarrow> float list \<Rightarrow> float) \<Rightarrow> HDRImage \<Rightarrow> float \<Rightarrow> int \<Rightarrow>
    BorderMode \<Rightarrow> BorderMode \<Rightarrow> bool \<Rightarrow> error + HDRImage" where
  "medianFiltered unspecified img radius chan mX mY rnd =
     bind_err (int_of_float (fceil radius)) (\<lambda>radiusi.
       let tempBuffer = img
       in for_each [0..height img - 1]
            (medianFiltered_row unspecified img radius radiusi chan mX mY rnd) tempBuffer)"

text \<open>
  The offsets gathered: the square of half-extent \<open>R\<close>, and of it, when \<open>round\<close> is set,
  only the offsets whose \<open>i\<^sup>2 + j\<^sup>2\<close>, as a \<open>float\<close>, is not greater than the \<open>float\<close>
  product \<open>radius * radius\<close>.
\<close>

definition neighbourhood :: "float \<Rightarrow> int \<Rightarrow> bool \<Rightarrow> (int \<times> int) list" where
  "neighbourhood radius R rnd =
     [(i, j). i \<leftarrow> [- R..R], j \<leftarrow> [- R..R],
              \<not> (rnd \<and> fless (fmul radius radius) (float_of_int (i * i + j * j)))]"

text \<open>
  The offsets the specification describes, with the comparison in exact arithmetic.
\<close>

definition neighbourhood_spec :: "real \<Rightarrow> bool \<Rightarrow> (int \<times> int) list" where
  "neighbourhood_spec r rnd =
     [(i, j). i \<leftarrow> [- \<lceil>r\<rceil>..\<lceil>r\<rceil>], j \<leftarrow> [- \<lceil>r\<rceil>..\<lceil>r\<rceil>],
              \<not> (rnd \<and> of_int (i * i + j * j) > r * r)]"

text \<open>
  The channel of a pixel where the index is one of 0..3.
\<close>

definition chanv :: "Color4 \<Rightarrow> int \<Rightarrow> float" where
  "chanv p i = (case channel p i of Inl e \<Rightarrow> 0 | Inr v \<Rightarrow> v)"

text \<open>
  The values gathered at \<open>(x, y)\<close>: the channel of the border-aware pixels at the offsets
  (the coordinates are sums of \<open>int\<close>s).
\<close>

definition gathered :: "HDRImage \<Rightarrow> int \<Rightarrow> BorderMode \<Rightarrow> BorderMode \<Rightarrow> int \<Rightarrow> int \<Rightarrow> (int \<times> int) list \<Rightarrow> float list" where
  "gathered img chan mX mY x y offsets =
     map (\<lambda>(i, j). chanv (pixelv img (add32 x i) (add32 y j) mX mY) chan) offsets"

text \<open>
  \<open>v\<close> is an order statistic of rank \<open>k\<close> (counted from 0) of \<open>xs\<close>: it occurs in \<open>xs\<close>,
  at most \<open>k\<close> elements are smaller and more than \<open>k\<close> elements are not greater.
\<close>

definition order_statistic :: "float list \<Rightarrow> nat \<Rightarrow> float \<Rightarrow> bool" where
  "order_statistic xs k v =
     (v \<in> set xs \<and> length (filter (\<lambda>u. fless u v) xs) \<le> k \<and> k < length (filter (\<lambda>u. fle u v) xs))"

text \<open>
  The element of rank \<open>\<lfloor>(N - 1) / 2\<rfloor>\<close> of the sorted values.
\<close>

definition lower_median :: "float list \<Rightarrow> float" where
  "lower_median xs = sort_key forder xs ! ((length xs - 1) div 2)"

text \<open>
  A pixel with one channel replaced, where the index is one of 0..3.
\<close>

definition with_channel :: "Color4 \<Rightarrow> int \<Rightarrow> float \<Rightarrow> Color4" where
  "with_channel p i v = (case set_channel p i v of Inl e \<Rightarrow> p | Inr q \<Rightarrow> q)"

text \<open>
  The value \<open>medianFiltered\<close> selects from the buffer \<open>G\<close> gathered at \<open>(x, y)\<close>.
\<close>

definition selected :: "(int \<Rightarrow> int \<Rightarrow> float list \<Rightarrow> float) \<Rightarrow> int \<Rightarrow> int \<Rightarrow> float list \<Rightarrow> float" where
  "selected unspecified x y G =
     (if G = [] \<or> NaN \<in> set G then unspecified x y G else lower_median G)"

text \<open>The pixel \<open>medianFiltered\<close> leaves at \<open>(x, y)\<close>, for the half-extent \<open>R\<close>.\<close>

definition median_at :: "(int \<Rightarrow> int \<Rightarrow> float list \<Rightarrow> float) \<Rightarrow> HDRImage \<Rightarrow> float \<Rightarrow> int \<Rightarrow> int \<Rightarrow>
    BorderMode \<Rightarrow> BorderMode \<Rightarrow> bool \<Rightarrow> int \<Rightarrow> int \<Rightarrow> Color4" where
  "median_at unspecified img radius R chan mX mY rnd x y =
     with_channel (data img x y) chan
       (selected unspecified x y (gathered img chan mX mY x y (neighbourhood radius R rnd)))"

text \<open>
  The 3 by 3 raster that is \<open>c\<close> in every channel, except for the pixel at the centre; a
  9 by 9 raster of zeros and ones; the \<open>float\<close> nearest to the square root of 13 (it is
  below the root, and its square rounds to 13); a 1 by 1 raster; and a reading of the
  unspecified positions.
\<close>

definition img33 :: "float \<Rightarrow> float \<Rightarrow> HDRImage" where
  "img33 c outlier = \<lparr>width = 3, height = 3,
     data = (\<lambda>i j. if i = 1 \<and> j = 1 then Color4_gray outlier else Color4_gray c)\<rparr>"

definition img99 :: HDRImage where
  "img99 = \<lparr>width = 9, height = 9,
     data = (\<lambda>i j. if 4 < j \<or> (j = 4 \<and> 4 < i) \<or> (i - 4) * (i - 4) + (j - 4) * (j - 4) = 13
                   then Color4_gray 1 else Color4_gray 0)\<rparr>"

definition radius13 :: real where
  "radius13 = 7561389 / 2097152"

definition img11 :: HDRImage where
  "img11 = \<lparr>width = 1, height = 1, data = (\<lambda>i j. Color4_gray 1)\<rparr>"

definition no_value :: "int \<Rightarrow> int \<Rightarrow> float list \<Rightarrow> float" where
  "no_value x y G = NaN"

section \<open>Canvas resizing (hdrimage.cpp)\<close>

datatype CanvasAnchor =
    TOP_LEFT | TOP_CENTER | TOP_RIGHT
  | MIDDLE_LEFT | MIDDLE_CENTER | MIDDLE_RIGHT
  | BOTTOM_LEFT | BOTTOM_CENTER | BOTTOM_RIGHT

text \<open>
  \<open>HDRImage::Constant(w, h, c)\<close>: a raster filled with one pixel.
\<close>

definition Constant :: "int \<Rightarrow> int \<Rightarrow> Color4 \<Rightarrow> error + HDRImage" where
  "Constant w h c =
     (if w < 0 \<or> h < 0 then Inl BadSize
      else Inr \<lparr>width = w, height = h, data = (\<lambda>i j. c)\<rparr>)"

text \<open>
  \<open>dst.block(dx, dy, bw, bh) = src.block(sx, sy, bw, bh)\<close>: the rectangle copied cell by
  cell.  A block that does not fit into its raster is a fault.
\<close>

definition block_assign :: "HDRImage \<Rightarrow> int \<Rightarrow> int \<Rightarrow> HDRImage \<Rightarrow> int \<Rightarrow> int \<Rightarrow> int \<Rightarrow> int \<Rightarrow> error + HDRImage" where
  "block_assign dst dx dy src sx sy bw bh =
     (if 0 \<le> dx \<and> 0 \<le> dy \<and> 0 \<le> sx \<and> 0 \<le> sy \<and> 0 \<le> bw \<and> 0 \<le> bh \<and>
         dx + bw \<le> width dst \<and> dy + bh \<le> height dst \<and>
         sx + bw \<le> width src \<and> sy + bh \<le> height src
      then Inr (dst\<lparr>data := (\<lambda>i j.
             if dx \<le> i \<and> i < dx + bw \<and> dy \<le> j \<and> j < dy + bh
             then data src (i - dx + sx) (j - dy + sy) else data dst i j)\<rparr>)
      else Inl OutOfBounds)"

text \<open>
  The two \<open>switch\<close> statements of \<open>resizedCanvas\<close>: the top-left corner of the old raster
  on the new canvas, before clipping.  \<open>(newW - oldW) / 2\<close> is a division of \<open>int\<close>s.
\<close>

definition resizedCanvas_tlDst_x :: "CanvasAnchor \<Rightarrow> int \<Rightarrow> int \<Rightarrow> int" where
  "resizedCanvas_tlDst_x anchor newW oldW =
     (case anchor of
        TOP_RIGHT \<Rightarrow> newW - oldW
      | MIDDLE_RIGHT \<Rightarrow> newW - oldW
      | BOTTOM_RIGHT \<Rightarrow> newW - oldW
      | TOP_CENTER \<Rightarrow> (newW - oldW) sdiv 2
      | MIDDLE_CENTER \<Rightarrow> (newW - oldW) sdiv 2
      | BOTTOM_CENTER \<Rightarrow> (newW - oldW) sdiv 2
      | _ \<Rightarrow> 0)"

definition resizedCanvas_tlDst_y :: "CanvasAnchor \<Rightarrow> int \<Rightarrow> int \<Rightarrow> int" where
  "resizedCanvas_tlDst_y anchor newH oldH =
     (case anchor of
        BOTTOM_LEFT \<Rightarrow> newH - oldH
      | BOTTOM_CENTER \<Rightarrow> newH - oldH
      | BOTTOM_RIGHT \<Rightarrow> newH - oldH
      | MIDDLE_LEFT \<Rightarrow> (newH - oldH) sdiv 2
      | MIDDLE_CENTER \<Rightarrow> (newH - oldH) sdiv 2
      | MIDDLE_RIGHT \<Rightarrow> (newH - oldH) sdiv 2
      | _ \<Rightarrow> 0)"

definition resizedCanvas :: "HDRImage \<Rightarrow> int \<Rightarrow> int \<Rightarrow> CanvasAnchor \<Rightarrow> Color4 \<Rightarrow> error + HDRImage" where
  "resizedCanvas this newW newH anchor bgColor =
     (let oldW = width this; oldH = height this
      in bind_err (Constant newW newH bgColor) (\<lambda>img.
         let tlDst_x = resizedCanvas_tlDst_x anchor newW oldW;
             tlDst_y = resizedCanvas_tlDst_y anchor newH oldH;
             tlSrc_x = (if tlDst_x < 0 then - tlDst_x else 0);
             tlDst_x = (if tlDst_x < 0 then 0 else tlDst_x);
             tlSrc_y = (if tlDst_y < 0 then - tlDst_y else 0);
             tlDst_y = (if tlDst_y < 0 then 0 else tlDst_y);
             bs_x = min oldW newW;
             bs_y = min oldH newH
         in block_assign img tlDst_x tlDst_y this tlSrc_x tlSrc_y bs_x bs_y))"


section \<open>Edit history (glimage.cpp)\<close>

text \<open>
  Modelled from the spec: \<open>CommandHistory\<close> and its records (commandhistory.h is not among
  the sources).  "an ordered undo stack and a redo stack of reversible edit records, each
  wrapping enough state to reconstruct the prior/next raster; owns no raster itself --
  operates by replacing the Controller's raster reference"; \<open>undo\<close> and \<open>redo\<close> "pop/replay
  a history record; return false if the respective stack is empty"; a completed command
  "appends the reversible record to history".
\<close>

record ImageCommandUndo =
  undo_image :: "HDRImage \<Rightarrow> HDRImage"
  redo_image :: "HDRImage \<Rightarrow> HDRImage"

record CommandHistory =
  undoStack :: "ImageCommandUndo list"
  redoStack :: "ImageCommandUndo list"

definition CommandHistory_addCommand :: "CommandHistory \<Rightarrow> ImageCommandUndo \<Rightarrow> CommandHistory" where
  "CommandHistory_addCommand h c = \<lparr>undoStack = c # undoStack h, redoStack = []\<rparr>"

definition CommandHistory_undo :: "CommandHistory \<Rightarrow> HDRImage \<Rightarrow> bool \<times> CommandHistory \<times> HDRImage" where
  "CommandHistory_undo h img =
     (case undoStack h of
        [] \<Rightarrow> (False, h, img)
      | c # cs \<Rightarrow> (True, \<lparr>undoStack = cs, redoStack = c # redoStack h\<rparr>, undo_image c img))"

definition CommandHistory_redo :: "CommandHistory \<Rightarrow> HDRImage \<Rightarrow> bool \<times> CommandHistory \<times> HDRImage" where
  "CommandHistory_redo h img =
     (case redoStack h of
        [] \<Rightarrow> (False, h, img)
      | c # cs \<Rightarrow> (True, \<lparr>undoStack = c # undoStack h, redoStack = cs\<rparr>, redo_image c img))"

text \<open>
  Modelled from the spec: \<open>AsyncTask\<close> (async.h is not among the sources), "a one-shot unit
  of work producing a (new raster, history record) pair plus a progress value".  \<open>get()\<close>
  blocks and returns the pair; blocking is not visible in a sequential model.
\<close>

record AsyncTask =
  task_result :: "HDRImage \<times> ImageCommandUndo"
  task_progress :: real

text \<open>
  \<open>LazyGLTextureLoader\<close>: the dirty flag and whether a texture has been generated.  The
  OpenGL calls are outside the model.  Whether one call of \<open>uploadToGPU\<close> reaches the last
  scanline within its time budget depends on the clock: it is the parameter \<open>finished\<close>.
  Modelled from the spec: \<open>setDirty\<close> (glimage.h is not among the sources), "mark
  GPU/histogram caches dirty".
\<close>

record LazyGLTextureLoader =
  m_dirty :: bool
  m_texture_allocated :: bool

definition LazyGLTextureLoader_setDirty :: "LazyGLTextureLoader \<Rightarrow> LazyGLTextureLoader" where
  "LazyGLTextureLoader_setDirty t = t\<lparr>m_dirty := True\<rparr>"

definition LazyGLTextureLoader_uploadToGPU :: "bool \<Rightarrow> LazyGLTextureLoader \<Rightarrow> bool \<times> LazyGLTextureLoader" where
  "LazyGLTextureLoader_uploadToGPU finished t =
     (if \<not> m_dirty t \<and> m_texture_allocated t then (False, t)
      else let t1 = t\<lparr>m_texture_allocated := True\<rparr>;
               t2 = (if finished then t1\<lparr>m_dirty := False\<rparr> else t1)
           in (\<not> m_dirty t2, t2))"

text \<open>
  \<open>GLImage\<close> (glimage.cpp): the members that \<open>undo\<close> and \<open>redo\<close> read or write.
\<close>

record GLImage =
  m_image :: HDRImage
  m_history :: CommandHistory
  m_texture :: LazyGLTextureLoader
  m_histogramDirty :: bool
  m_asyncCommand :: "AsyncTask option"
  m_asyncRetrieved :: bool

definition GLImage_uploadToGPU :: "bool \<Rightarrow> GLImage \<Rightarrow> GLImage" where
  "GLImage_uploadToGPU finished g =
     (case LazyGLTextureLoader_uploadToGPU finished (m_texture g) of
        (uploaded, t) \<Rightarrow>
          if uploaded then g\<lparr>m_texture := t, m_asyncCommand := None\<rparr>
          else g\<lparr>m_texture := t\<rparr>)"

definition waitForAsyncResult :: "bool \<Rightarrow> GLImage \<Rightarrow> bool \<times> GLImage" where
  "waitForAsyncResult finished g =
     (case m_asyncCommand g of
        None \<Rightarrow> (False, g)
      | Some task \<Rightarrow>
          if m_asyncRetrieved g then (False, g)
          else let result = task_result task;
                   g1 = g\<lparr>m_history := CommandHistory_addCommand (m_history g) (snd result)\<rparr>;
                   g2 = g1\<lparr>m_image := fst result\<rparr>;
                   g3 = g2\<lparr>m_asyncRetrieved := True\<rparr>;
                   g4 = g3\<lparr>m_histogramDirty := True\<rparr>;
                   g5 = g4\<lparr>m_texture := LazyGLTextureLoader_setDirty (m_texture g4)\<rparr>;
                   g6 = g5\<lparr>m_asyncCommand := Some (task\<lparr>task_progress := - 1\<rparr>)\<rparr>
               in (True, GLImage_uploadToGPU finished g6))"

definition undo :: "bool \<Rightarrow> GLImage \<Rightarrow> bool \<times> GLImage" where
  "undo finished g =
     (let g1 = snd (waitForAsyncResult finished g)
      in case CommandHistory_undo (m_history g1) (m_image g1) of
           (ok, h, img) \<Rightarrow>
             let g2 = g1\<lparr>m_history := h, m_image := img\<rparr>
             in if ok
                then (True, g2\<lparr>m_histogramDirty := True,
                                m_texture := LazyGLTextureLoader_setDirty (m_texture g2)\<rparr>)
                else (False, g2))"

definition redo :: "bool \<Rightarrow> GLImage \<Rightarrow> bool \<times> GLImage" where
  "redo finished g =
     (let g1 = snd (waitForAsyncResult finished g)
      in case CommandHistory_redo (m_history g1) (m_image g1) of
           (ok, h, img) \<Rightarrow>
             let g2 = g1\<lparr>m_history := h, m_image := img\<rparr>
             in if ok
                then (True, g2\<lparr>m_histogramDirty := True,
                                m_texture := LazyGLTextureLoader_setDirty (m_texture g2)\<rparr>)
                else (False, g2))"

text \<open>
  A history record that restores a stored raster, and two states of a \<open>GLImage\<close>.
\<close>

definition fullImageUndo :: "HDRImage \<Rightarrow> HDRImage \<Rightarrow> ImageCommandUndo" where
  "fullImageUndo before after = \<lparr>undo_image = (\<lambda>img. before), redo_image = (\<lambda>img. after)\<rparr>"

definition glimage_fresh :: GLImage where
  "glimage_fresh = \<lparr>m_image = emptyImage, m_history = \<lparr>undoStack = [], redoStack = []\<rparr>,
     m_texture = \<lparr>m_dirty = False, m_texture_allocated = True\<rparr>, m_histogramDirty = False,
     m_asyncCommand = None, m_asyncRetrieved = False\<rparr>"

definition glimage_edited :: GLImage where
  "glimage_edited = glimage_fresh\<lparr>m_image := img21,
     m_history := \<lparr>undoStack = [fullImageUndo emptyImage img21], redoStack = []\<rparr>\<rparr>"

section \<open>AHD demosaicing: arbitration and border (hdrimage.cpp)\<close>





























section \<open>Rounding and 32-bit arithmetic\<close>

lemma bind_err_Inr [simp]: "bind_err (Inr v) f = f v"
  by (simp add: bind_err_def)

lemma bind_err_Inl [simp]: "bind_err (Inl e) f = Inl e"
  by (simp add: bind_err_def)

lemma wrap32_id: "- (2 ^ 31) \<le> v \<Longrightarrow> v < 2 ^ 31 \<Longrightarrow> wrap32 v = v"
  by (simp add: wrap32_def)


lemma expo_from_eq:
  "e - int n \<le> k \<Longrightarrow> k \<le> e \<Longrightarrow> 2 powi k \<le> a \<Longrightarrow> a < 2 powi (k + 1) \<Longrightarrow> expo_from n e a = k"
proof (induction n arbitrary: e)
  case 0
  then show ?case by simp
next
  case (Suc n)
  show ?case
  proof (cases "2 powi e \<le> a")
    case True
    then have "(2::real) powi e < 2 powi (k + 1)" using Suc.prems(4) by linarith
    then have "e < k + 1"
      by (metis not_less power_int_increasing one_le_numeral)
    then show ?thesis using True Suc.prems(2) by simp
  next
    case False
    then have "k \<noteq> e" using Suc.prems(3) by auto
    then have "k \<le> e - 1" "e - 1 - int n \<le> k" using Suc.prems by simp_all
    then show ?thesis using False Suc.IH [of "e - 1"] Suc.prems(3,4) by simp
  qed
qed

lemma expo_from_low: "a < 2 powi (e - int n + 1) \<Longrightarrow> expo_from n e a = e - int n"
proof (induction n arbitrary: e)
  case 0
  then show ?case by simp
next
  case (Suc n)
  have "(2::real) powi (e - int (Suc n) + 1) \<le> 2 powi e"
    by (rule power_int_increasing) simp_all
  then have "\<not> 2 powi e \<le> a" using Suc.prems by linarith
  moreover have "expo_from n (e - 1) a = e - 1 - int n"
    using Suc.prems by (intro Suc.IH) (simp add: algebra_simps)
  ultimately show ?case by simp
qed

lemma expo_from_lower: "expo_from n e a = e - int n \<or> 2 powi (expo_from n e a) \<le> a"
proof (induction n arbitrary: e)
  case 0
  then show ?case by simp
next
  case (Suc n)
  show ?case using Suc.IH [of "e - 1"] by auto
qed

lemma expo_from_range: "e - int n \<le> expo_from n e a \<and> expo_from n e a \<le> e"
proof (induction n arbitrary: e)
  case 0
  then show ?case by simp
next
  case (Suc n)
  show ?case using Suc.IH [of "e - 1"] by auto
qed

lemma expo_from_upper: "a < 2 powi (e + 1) \<Longrightarrow> a < 2 powi (expo_from n e a + 1)"
proof (induction n arbitrary: e)
  case 0
  then show ?case by simp
next
  case (Suc n)
  show ?case
  proof (cases "2 powi e \<le> a")
    case True
    then show ?thesis using Suc.prems by simp
  next
    case False
    then have "a < 2 powi (e - 1 + 1)" by simp
    then show ?thesis using False Suc.IH [of "e - 1"] by simp
  qed
qed

lemma expo_eq:
  assumes "- 126 \<le> k" "k \<le> 127" "2 powi k \<le> \<bar>x\<bar>" "\<bar>x\<bar> < 2 powi (k + 1)"
  shows "expo x = k"
  unfolding expo_def using assms by (intro expo_from_eq) simp_all

lemma expo_small: "\<bar>x\<bar> < 2 powi (- 125) \<Longrightarrow> expo x = - 126"
  unfolding expo_def using expo_from_low [of "\<bar>x\<bar>" 127 253] by simp

lemma expo_range: "- 126 \<le> expo x \<and> expo x \<le> 127"
  unfolding expo_def using expo_from_range [of 127 253 "\<bar>x\<bar>"] by simp

lemma expo_lower: "expo x = - 126 \<or> 2 powi (expo x) \<le> \<bar>x\<bar>"
  unfolding expo_def using expo_from_lower [of 253 127 "\<bar>x\<bar>"] by simp

lemma expo_upper: "\<bar>x\<bar> < 2 powi 128 \<Longrightarrow> \<bar>x\<bar> < 2 powi (expo x + 1)"
  unfolding expo_def using expo_from_upper [of "\<bar>x\<bar>" 127 253] by simp

lemma round_even_of_int [simp]: "round_even (of_int k) = k"
  by (simp add: round_even_def)

lemma round_even_0 [simp]: "round_even 0 = 0"
  by (simp add: round_even_def)

lemma rne_0 [simp]: "rne 0 = 0"
  by (simp add: rne_def)


lemma rne_eval:
  assumes "- 126 \<le> E" "E \<le> 127" "2 powi E \<le> \<bar>x\<bar>" "\<bar>x\<bar> < 2 powi (E + 1)"
  shows "rne x = of_int (round_even (x / 2 powi (E - 23))) * 2 powi (E - 23)"
  by (simp add: rne_def expo_eq [OF assms])

lemma rne_dyadic:
  assumes k: "\<bar>k\<bar> < 2 ^ 24" and e: "- 149 \<le> e"
  shows "rne (of_int k * 2 powi e) = of_int k * 2 powi e"
proof -
  define x :: real where "x = of_int k * 2 powi e"
  define E where "E = expo x"
  have ax: "\<bar>x\<bar> = of_int \<bar>k\<bar> * 2 powi e"
    by (simp add: x_def abs_mult)
  have le: "E - 23 \<le> e"
  proof (cases "E = - 126")
    case True
    then show ?thesis using e by simp
  next
    case False
    then have "2 powi E \<le> \<bar>x\<bar>"
      using expo_lower [of x] by (simp add: E_def)
    also have "\<bar>x\<bar> < 2 ^ 24 * 2 powi e"
      unfolding ax using k by (intro mult_strict_right_mono) (simp_all add: of_int_less_iff [where 'a = real, symmetric] del: of_int_less_iff)
    also have "(2 ^ 24 :: real) * 2 powi e = 2 powi (24 + e)"
      by (simp add: power_int_add)
    finally have "E < 24 + e"
      by (metis not_less power_int_increasing one_le_numeral)
    then show ?thesis by simp
  qed
  define d where "d = nat (e - (E - 23))"
  have ed: "e = (E - 23) + int d"
    using le by (simp add: d_def)
  have pw: "(2::real) powi e = 2 powi (E - 23) * 2 ^ d"
    by (subst ed) (simp add: power_int_add)
  have q: "x / 2 powi (E - 23) = of_int (k * 2 ^ d)"
    by (simp add: x_def pw)
  have "rne x = of_int (round_even (x / 2 powi (E - 23))) * 2 powi (E - 23)"
    by (simp add: rne_def E_def)
  also have "\<dots> = of_int (k * 2 ^ d) * 2 powi (E - 23)"
    by (simp only: q round_even_of_int)
  also have "\<dots> = x"
    by (simp add: x_def pw)
  finally show ?thesis by (simp add: x_def)
qed

lemma rne_int:
  assumes "\<bar>k\<bar> \<le> 2 ^ 24"
  shows "rne (of_int k) = of_int k"
proof (cases "\<bar>k\<bar> < 2 ^ 24")
  case True
  then show ?thesis using rne_dyadic [of k 0] by simp
next
  case False
  then have "k = 2 ^ 24 \<or> k = - (2 ^ 24)" using assms by linarith
  then show ?thesis
    using rne_dyadic [of "2 ^ 23" 1] rne_dyadic [of "- (2 ^ 23)" 1] by auto
qed

lemma rne_halves: "\<bar>k\<bar> < 2 ^ 24 \<Longrightarrow> rne (of_int k / 2) = of_int k / 2"
  using rne_dyadic [of k "- 1"] by (simp add: power_int_minus field_simps)

lemma rne_quarters: "\<bar>k\<bar> < 2 ^ 24 \<Longrightarrow> rne (of_int k / 4) = of_int k / 4"
  using rne_dyadic [of k "- 2"] by (simp add: power_int_minus field_simps)

lemma rne_numeral [simp]: "numeral n \<le> (16777216::int) \<Longrightarrow> rne (numeral n) = numeral n"
  using rne_int [of "numeral n"] by simp

lemma rne_neg_numeral [simp]: "numeral n \<le> (16777216::int) \<Longrightarrow> rne (- numeral n) = - numeral n"
  using rne_int [of "- numeral n"] by simp

lemma rne_1 [simp]: "rne 1 = 1"
  using rne_int [of 1] by simp

lemma rne_neg_1 [simp]: "rne (- 1) = - 1"
  using rne_int [of "- 1"] by simp

lemma round32_int: "\<bar>k\<bar> \<le> 2 ^ 24 \<Longrightarrow> round32 (of_int k) = Finite (of_int k)"
proof -
  assume a: "\<bar>k\<bar> \<le> 2 ^ 24"
  then have "\<bar>real_of_int k\<bar> \<le> 2 ^ 24"
    by (metis of_int_abs of_int_le_iff of_int_numeral of_int_power)
  then have "\<not> 2 ^ 128 \<le> real_of_int k" "\<not> real_of_int k \<le> - (2 ^ 128)"
    by auto
  then show ?thesis
    by (simp add: round32_def rne_int [OF a])
qed


lemma add32_id: "- (2 ^ 31) \<le> a + b \<Longrightarrow> a + b < 2 ^ 31 \<Longrightarrow> add32 a b = a + b"
  by (simp add: add32_def wrap32_id)

lemma sub32_id: "- (2 ^ 31) \<le> a - b \<Longrightarrow> a - b < 2 ^ 31 \<Longrightarrow> sub32 a b = a - b"
  by (simp add: sub32_def wrap32_id)

lemma mul32_id: "- (2 ^ 31) \<le> a * b \<Longrightarrow> a * b < 2 ^ 31 \<Longrightarrow> mul32 a b = a * b"
  by (simp add: mul32_def wrap32_id)

lemma neg32_id: "- (2 ^ 31) < a \<Longrightarrow> a \<le> 2 ^ 31 \<Longrightarrow> neg32 a = - a"
  by (simp add: neg32_def wrap32_id)

lemma round32_float: "is_float (Finite x) \<Longrightarrow> round32 x = Finite x"
  by (auto simp: round32_def)

lemma round32_0 [simp]: "round32 0 = Finite 0"
  by (simp add: round32_def)

lemma round32_1 [simp]: "round32 1 = Finite 1"
  using round32_int [of 1] by simp

lemma round32_halves: "\<bar>k\<bar> < 2 ^ 24 \<Longrightarrow> round32 (of_int k / 2) = Finite (of_int k / 2)"
proof -
  assume a: "\<bar>k\<bar> < 2 ^ 24"
  then have "\<bar>real_of_int k\<bar> < 2 ^ 24"
    by (metis of_int_abs of_int_less_iff of_int_numeral of_int_power)
  then have "\<not> 2 ^ 128 \<le> real_of_int k / 2" "\<not> real_of_int k / 2 \<le> - (2 ^ 128)"
    by auto
  then show ?thesis
    by (simp add: round32_def rne_halves [OF a])
qed

lemma round32_quarters: "\<bar>k\<bar> < 2 ^ 24 \<Longrightarrow> round32 (of_int k / 4) = Finite (of_int k / 4)"
proof -
  assume a: "\<bar>k\<bar> < 2 ^ 24"
  then have "\<bar>real_of_int k\<bar> < 2 ^ 24"
    by (metis of_int_abs of_int_less_iff of_int_numeral of_int_power)
  then have "\<not> 2 ^ 128 \<le> real_of_int k / 4" "\<not> real_of_int k / 4 \<le> - (2 ^ 128)"
    by auto
  then show ?thesis
    by (simp add: round32_def rne_quarters [OF a])
qed

lemma round32_numeral [simp]:
  "numeral n \<le> (16777216::int) \<Longrightarrow> round32 (numeral n) = Finite (numeral n)"
  using round32_int [of "numeral n"] by simp

lemma round32_neg_numeral [simp]:
  "numeral n \<le> (16777216::int) \<Longrightarrow> round32 (- numeral n) = Finite (- numeral n)"
  using round32_int [of "- numeral n"] by simp

lemma round32_neg_1 [simp]: "round32 (- 1) = Finite (- 1)"
  using round32_int [of "- 1"] by simp

lemma float_of_int_id: "\<bar>k\<bar> \<le> 2 ^ 24 \<Longrightarrow> float_of_int k = Finite (of_int k)"
  by (simp add: float_of_int_def round32_int)

lemma is_float_int: "\<bar>k\<bar> \<le> 2 ^ 24 \<Longrightarrow> is_float (Finite (of_int k))"
proof -
  assume a: "\<bar>k\<bar> \<le> 2 ^ 24"
  then have "\<bar>real_of_int k\<bar> \<le> 2 ^ 24"
    by (metis of_int_abs of_int_le_iff of_int_numeral of_int_power)
  then have "\<bar>real_of_int k\<bar> < 2 ^ 128" by auto
  then show ?thesis by (simp add: rne_int [OF a])
qed

lemma fmul_one: "is_float v \<Longrightarrow> fmul v (Finite 1) = v"
  by (cases v) (simp_all add: round32_float)

lemma fadd_zero: "is_float v \<Longrightarrow> fadd v (Finite 0) = v"
  by (cases v) (simp_all add: round32_float)

lemma fadd_zero_left: "is_float v \<Longrightarrow> fadd (Finite 0) v = v"
  by (cases v) (simp_all add: round32_float)

lemma fmul_zero [simp]: "fmul (Finite x) (Finite 0) = Finite 0"
  by simp

lemma is_finite_float: "is_finite v \<Longrightarrow> is_float v"
  by (cases v) simp_all

lemma is_finite_Finite: "is_finite v \<Longrightarrow> \<exists>x. v = Finite x"
  by (cases v) simp_all

lemma scaleC_one: "is_Color4 p \<Longrightarrow> scaleC p (Finite 1) = p"
  by (cases p) (simp add: scaleC_def is_Color4_def fmul_one)

lemma scaleC_zero: "finiteC p \<Longrightarrow> scaleC p (Finite 0) = Color4_gray (Finite 0)"
  by (cases p) (auto simp: scaleC_def finiteC_def Color4_gray_def dest!: is_finite_Finite)

lemma addC_zero: "is_Color4 p \<Longrightarrow> addC p (Color4_gray (Finite 0)) = p"
  by (cases p) (simp add: addC_def is_Color4_def Color4_gray_def fadd_zero)

lemma addC_zero_left: "is_Color4 p \<Longrightarrow> addC (Color4_gray (Finite 0)) p = p"
  by (cases p) (simp add: addC_def is_Color4_def Color4_gray_def fadd_zero_left)

lemma finiteC_is_Color4: "finiteC p \<Longrightarrow> is_Color4 p"
  by (simp add: finiteC_def is_Color4_def is_finite_float)

lemma is_Color4_zero [simp]: "is_Color4 (Color4_gray (Finite 0))"
  by (simp add: is_Color4_def Color4_gray_def)

section \<open>Loops\<close>

lemma for_each_upto:
  assumes "I a s"
    and "\<And>k t. a \<le> k \<Longrightarrow> k \<le> b \<Longrightarrow> I k t \<Longrightarrow> \<exists>t'. body k t = Inr t' \<and> I (k + 1) t'"
  shows "\<exists>s'. for_each [a..b] body s = Inr s' \<and> I (max a (b + 1)) s'"
  using assms
proof (induction "nat (b + 1 - a)" arbitrary: a s)
  case 0
  then have "[a..b] = []" "max a (b + 1) = a" by simp_all
  then show ?case using 0 by simp
next
  case (Suc n)
  then have le: "a \<le> b" by linarith
  obtain t where t: "body a s = Inr t" "I (a + 1) t"
    using Suc.prems(2) [OF _ le Suc.prems(1)] by auto
  have n: "n = nat (b + 1 - (a + 1))" using Suc.hyps(2) by linarith
  have "\<exists>s'. for_each [a + 1..b] body t = Inr s' \<and> I (max (a + 1) (b + 1)) s'"
    using Suc.prems(2) by (intro Suc.hyps(1) [OF n t(2)]) simp
  moreover have "max (a + 1) (b + 1) = max a (b + 1)" using le by simp
  ultimately show ?case
    using le t(1) by (simp add: upto_rec1 [of a b])
qed

lemma for_each_append:
  assumes "\<And>i buf. i \<in> set is \<Longrightarrow> body i buf = Inr (buf @ g i)"
  shows "for_each is body buf = Inr (buf @ concat (map g is))"
  using assms by (induction "is" arbitrary: buf) simp_all


lemma for_each_total:
  assumes "\<And>i s. i \<in> set is \<Longrightarrow> \<exists>s'. body i s = Inr s'"
  shows "\<exists>s'. for_each is body s = Inr s'"
  using assms
proof (induction "is" arbitrary: s)
  case Nil
  then show ?case by simp
next
  case (Cons i "is")
  obtain t where t: "body i s = Inr t"
    using Cons.prems [of i s] by auto
  have "\<exists>s'. for_each is body t = Inr s'"
    using Cons.prems by (intro Cons.IH) simp
  then show ?case by (simp add: t)
qed


lemma for_each_partial_inv:
  assumes "I s"
    and "\<And>i t. i \<in> set is \<Longrightarrow> I t \<Longrightarrow> \<exists>t'. body i t = Some (Inr t') \<and> I t'"
  shows "\<exists>s'. for_each_partial is body s = Some (Inr s') \<and> I s'"
  using assms
proof (induction "is" arbitrary: s)
  case Nil
  then show ?case by simp
next
  case (Cons i "is")
  obtain t where t: "body i s = Some (Inr t)" "I t"
    using Cons.prems(2) [of i s] Cons.prems(1) by auto
  have "\<exists>s'. for_each_partial is body t = Some (Inr s') \<and> I s'"
    using Cons.prems(2) by (intro Cons.IH [OF t(2)]) simp
  then show ?case by (simp add: t(1))
qed




section \<open>Border-aware coordinate resolution\<close>

lemma wrapCoord_in_range: "0 \<le> p \<Longrightarrow> p < maxP \<Longrightarrow> wrapCoord p maxP m = Inr p"
  by (simp add: wrapCoord_def)

lemma wrapCoord_EDGE: "0 < maxP \<Longrightarrow> wrapCoord p maxP EDGE = Inr (max 0 (min (maxP - 1) p))"
  by (auto simp: wrapCoord_def clamp_def)

lemma wrapCoord_REPEAT: "0 < maxP \<Longrightarrow> wrapCoord p maxP REPEAT = Inr (p mod maxP)"
  by (auto simp: wrapCoord_def mod_int_def)

lemma wrapCoord_BLACK:
  "wrapCoord p maxP BLACK = Inr (if 0 \<le> p \<and> p < maxP then p else - 1)"
  by (simp add: wrapCoord_def)

lemma sdiv_nonneg: "0 \<le> a \<Longrightarrow> 0 < b \<Longrightarrow> (a::int) sdiv b = a div b"
  by (simp add: signed_divide_int_def sgn_if)

lemma smod_nonneg: "0 \<le> a \<Longrightarrow> 0 < b \<Longrightarrow> (a::int) smod b = a mod b"
  by (simp add: signed_modulo_int_def sgn_if)

lemma wrapCoord_MIRROR_nonneg:
  assumes "0 < maxP" and "0 \<le> p"
  shows "wrapCoord p maxP MIRROR = Inr (mirror_spec p maxP)"
proof -
  have abs: "c_abs p = p"
    using assms by (simp add: c_abs_def)
  have q: "0 \<le> p div maxP"
    using assms by (simp add: pos_imp_zdiv_nonneg_iff)
  have par: "((p div maxP) smod 2 \<noteq> 0) = odd (p div maxP)"
    using q by (simp add: smod_nonneg odd_iff_mod_2_eq_one)
  show ?thesis
  proof (cases "p < maxP")
    case True
    then show ?thesis
      using assms by (simp add: wrapCoord_def mirror_spec_def)
  next
    case False
    then show ?thesis
      using assms abs par
      by (simp add: wrapCoord_def mod_int_def mirror_spec_def sdiv_nonneg)
  qed
qed

lemma wrapCoord_bounds:
  assumes "0 < maxP" and "m \<noteq> BLACK"
  shows "\<exists>q. wrapCoord p maxP m = Inr q \<and> 0 \<le> q \<and> q < maxP"
proof (cases m)
  case BLACK
  then show ?thesis using assms by simp
next
  case EDGE
  then show ?thesis using assms by (auto simp: wrapCoord_def clamp_def)
next
  case REPEAT
  then show ?thesis using assms by (auto simp: wrapCoord_def mod_int_def)
next
  case MIRROR
  have f: "0 \<le> p mod maxP" "p mod maxP < maxP"
    using assms by simp_all
  show ?thesis
  proof (cases "0 \<le> p \<and> p < maxP")
    case True
    then show ?thesis by (simp add: wrapCoord_def)
  next
    case False
    let ?q = "if (c_abs p sdiv maxP) smod 2 \<noteq> 0 then maxP - 1 - p mod maxP else p mod maxP"
    have "wrapCoord p maxP MIRROR = Inr ?q"
      using False assms by (auto simp: wrapCoord_def mod_int_def)
    moreover have "0 \<le> ?q \<and> ?q < maxP"
    proof (cases "(c_abs p sdiv maxP) smod 2 \<noteq> 0")
      case True
      then have "?q = maxP - 1 - p mod maxP" by (rule if_P)
      then show ?thesis using f by linarith
    next
      case False
      then have "?q = p mod maxP" by (rule if_not_P)
      then show ?thesis using f by linarith
    qed
    ultimately show ?thesis using MIRROR by blast
  qed
qed

text \<open>
  What MIRROR computes for every coordinate (the most negative \<open>int\<close> apart, whose
  absolute value overflows): the parity is that of \<open>\<bar>p\<bar> / maxP\<close>.
\<close>

lemma wrapCoord_MIRROR_code:
  assumes "0 < maxP" and "p \<noteq> - 2147483648"
  shows "wrapCoord p maxP MIRROR =
     Inr (if 0 \<le> p \<and> p < maxP then p
          else if odd (\<bar>p\<bar> div maxP) then maxP - 1 - p mod maxP else p mod maxP)"
proof -
  have "c_abs p = \<bar>p\<bar>" using assms(2) by (simp add: c_abs_def)
  moreover have "0 \<le> \<bar>p\<bar> div maxP"
    using assms(1) by (simp add: pos_imp_zdiv_nonneg_iff)
  then have "((\<bar>p\<bar> div maxP) smod 2 \<noteq> 0) = odd (\<bar>p\<bar> div maxP)"
    by (simp add: smod_nonneg odd_iff_mod_2_eq_one)
  ultimately show ?thesis
    using assms(1) by (simp add: wrapCoord_def mod_int_def sdiv_nonneg)
qed

text \<open>
  C1.  EDGE clamps, REPEAT wraps and an in-range coordinate is returned unchanged
  (\<open>wrapCoord_EDGE\<close>, \<open>wrapCoord_REPEAT\<close>, \<open>wrapCoord_in_range\<close>), and MIRROR agrees
  with the described reflection for \<open>p \<ge> 0\<close> (\<open>wrapCoord_MIRROR_nonneg\<close>).  For a
  negative coordinate MIRROR takes the parity of \<open>\<bar>p\<bar> / maxP\<close> instead of that of
  \<open>\<lfloor>p/maxP\<rfloor>\<close>: at \<open>p = -1\<close>, \<open>maxP = 4\<close> the code returns 3, the far end of the row,
  where the reflection is 0.
\<close>

theorem wrapCoord_MIRROR_minus_one:
  "wrapCoord (- 1) 4 MIRROR = Inr 3 \<and> mirror_spec (- 1) 4 = 0"
  by (simp add: wrapCoord_def mod_int_def c_abs_def mirror_spec_def signed_divide_int_def)

section \<open>Totality of border-aware reads\<close>

lemma pixel_in_image:
  assumes "0 < width img" and "0 < height img" and "mX \<noteq> BLACK" and "mY \<noteq> BLACK"
  shows "\<exists>x' y'. in_bounds img x' y' \<and> pixel img x y mX mY = Inr (data img x' y')"
proof -
  obtain x' where x': "wrapCoord x (width img) mX = Inr x'" "0 \<le> x'" "x' < width img"
    using wrapCoord_bounds [OF assms(1) assms(3)] by blast
  obtain y' where y': "wrapCoord y (height img) mY = Inr y'" "0 \<le> y'" "y' < height img"
    using wrapCoord_bounds [OF assms(2) assms(4)] by blast
  have "pixel img x y mX mY = Inr (data img x' y')"
    using x' y' by (simp add: pixel_def coeff_def in_bounds_def)
  moreover have "in_bounds img x' y'"
    using x' y' by (simp add: in_bounds_def)
  ultimately show ?thesis by blast
qed

text \<open>
  C2, as the code has it.  On a raster with at least one pixel, a read under EDGE,
  REPEAT or MIRROR returns a stored pixel of the raster for every pair of integers:
  it never faults.
\<close>

theorem pixel_total_nonempty:
  assumes "0 < width img" and "0 < height img" and "m \<in> {EDGE, REPEAT, MIRROR}"
  shows "\<exists>x' y'. in_bounds img x' y' \<and> pixel img x y m m = Inr (data img x' y')"
proof -
  have "m \<noteq> BLACK" using assms(3) by auto
  then show ?thesis using pixel_in_image [OF assms(1) assms(2)] by blast
qed

theorem pixel_total_nonempty_witness:
  "0 < width img21 \<and> 0 < height img21 \<and> MIRROR \<in> {EDGE, REPEAT, MIRROR} \<and>
   (\<exists>x' y'. in_bounds img21 x' y' \<and> pixel img21 5 (- 3) MIRROR MIRROR = Inr (data img21 x' y'))"
proof -
  have w: "0 < width img21" and h: "0 < height img21"
    by (simp_all add: img21_def)
  have m: "MIRROR \<in> {EDGE, REPEAT, MIRROR}" by simp
  show ?thesis
    using w h m pixel_total_nonempty [OF w h m, of 5 "- 3"] by blast
qed

text \<open>
  C2, as stated, fails on a raster without pixels: with a zero dimension MIRROR (and
  REPEAT) divide by zero.
\<close>

theorem pixel_empty_raster_faults:
  "pixel emptyImage 0 0 MIRROR MIRROR = Inl DivisionByZero"
  by (simp add: pixel_def emptyImage_def wrapCoord_def mod_int_def)

section \<open>Border mode BLACK\<close>

text \<open>
  C3.  Under BLACK an out-of-range read returns the fixed pixel (0,0,0,0) and an
  out-of-range write throws \<open>out_of_range\<close>; an in-range read returns the stored pixel
  and an in-range write stores into that cell and no other.
\<close>

theorem pixel_BLACK:
  "(\<not> in_bounds img x y \<longrightarrow>
      pixel img x y BLACK BLACK = Inr (Color4 0 0 0 0) \<and>
      pixel_write img x y BLACK BLACK v = Inl out_of_range) \<and>
   (in_bounds img x y \<longrightarrow>
      pixel img x y BLACK BLACK = Inr (data img x y) \<and>
      pixel_write img x y BLACK BLACK v =
        Inr (img\<lparr>data := (\<lambda>i j. if i = x \<and> j = y then v else data img i j)\<rparr>))"
  by (auto simp: pixel_def pixel_ref_def pixel_write_def wrapCoord_def coeff_def
      set_coeff_def in_bounds_def g_blackPixel_def)

theorem pixel_BLACK_witness:
  "\<not> in_bounds img21 2 0 \<and> pixel img21 2 0 BLACK BLACK = Inr (Color4 0 0 0 0) \<and>
   pixel_write img21 2 0 BLACK BLACK (Color4 (Finite 9) (Finite 9) (Finite 9) (Finite 9)) = Inl out_of_range \<and>
   in_bounds img21 1 0 \<and> pixel img21 1 0 BLACK BLACK = Inr (Color4 (Finite 5) (Finite 6) (Finite 7) (Finite 8)) \<and>
   (case pixel_write img21 1 0 BLACK BLACK (Color4 (Finite 9) (Finite 9) (Finite 9) (Finite 9)) of
      Inl e \<Rightarrow> False
    | Inr out \<Rightarrow> data out 1 0 = Color4 (Finite 9) (Finite 9) (Finite 9) (Finite 9) \<and> data out 0 0 = Color4 (Finite 1) (Finite 2) (Finite 3) (Finite 4))"
proof -
  have a: "\<not> in_bounds img21 2 0" and b: "in_bounds img21 1 0"
    by (simp_all add: in_bounds_def img21_def)
  show ?thesis
    using a b pixel_BLACK [of img21 2 0 "Color4 (Finite 9) (Finite 9) (Finite 9) (Finite 9)"]
      pixel_BLACK [of img21 1 0 "Color4 (Finite 9) (Finite 9) (Finite 9) (Finite 9)"]
    by (simp add: img21_def)
qed

section \<open>Sampling at pixel centres\<close>

lemma wrapCoord_defined:
  assumes "0 < maxP"
  shows "\<exists>q. wrapCoord p maxP m = Inr q \<and> (q < 0 \<or> (0 \<le> q \<and> q < maxP))"
proof (cases "m = BLACK")
  case True
  then show ?thesis by (simp add: wrapCoord_BLACK)
next
  case False
  then show ?thesis using wrapCoord_bounds [OF assms False, of p] by blast
qed

lemma pixel_defined:
  assumes "0 < width img" and "0 < height img"
  shows "pixel img x y mX mY = Inr (pixelv img x y mX mY)"
proof -
  obtain x' where x': "wrapCoord x (width img) mX = Inr x'" "x' < 0 \<or> (0 \<le> x' \<and> x' < width img)"
    using wrapCoord_defined [OF assms(1)] by blast
  obtain y' where y': "wrapCoord y (height img) mY = Inr y'" "y' < 0 \<or> (0 \<le> y' \<and> y' < height img)"
    using wrapCoord_defined [OF assms(2)] by blast
  have "\<exists>c. pixel img x y mX mY = Inr c"
    using x' y' by (auto simp: pixel_def coeff_def in_bounds_def)
  then show ?thesis by (auto simp: pixelv_def)
qed

lemma pixel_in_bounds:
  "in_bounds img x y \<Longrightarrow> pixel img x y mX mY = Inr (data img x y)"
  by (simp add: pixel_def in_bounds_def wrapCoord_in_range coeff_def)

lemma pixelv_in_bounds:
  "in_bounds img x y \<Longrightarrow> pixelv img x y mX mY = data img x y"
  by (simp add: pixelv_def pixel_in_bounds)

lemma upto4: "[i - 1..i + 2] = [i - 1, i, i + 1, i + 2]"
  by (simp add: upto_rec1)

lemma upto4': "[i - 1..i + 3 - 1] = [i - 1, i, i + 1, i + 2]"
  "[i - 1..2 + i] = [i - 1, i, i + 1, i + 2]"
  by (simp_all add: upto_rec1)

lemma pixelv_cases:
  assumes "0 < width img" and "0 < height img"
  shows "pixelv img x y mX mY = g_blackPixel \<or>
         (\<exists>x' y'. in_bounds img x' y' \<and> pixelv img x y mX mY = data img x' y')"
proof -
  obtain x' where x': "wrapCoord x (width img) mX = Inr x'" "x' < 0 \<or> (0 \<le> x' \<and> x' < width img)"
    using wrapCoord_defined [OF assms(1)] by blast
  obtain y' where y': "wrapCoord y (height img) mY = Inr y'" "y' < 0 \<or> (0 \<le> y' \<and> y' < height img)"
    using wrapCoord_defined [OF assms(2)] by blast
  show ?thesis
  proof (cases "x' < 0 \<or> y' < 0")
    case True
    then show ?thesis using x' y' by (simp add: pixelv_def pixel_def)
  next
    case False
    then have "in_bounds img x' y'" using x' y' by (auto simp: in_bounds_def)
    moreover have "pixelv img x y mX mY = data img x' y'"
      using False x' y' \<open>in_bounds img x' y'\<close> by (simp add: pixelv_def pixel_def coeff_def)
    ultimately show ?thesis by blast
  qed
qed

lemma zeroC: "Color4 0 0 0 0 = Color4_gray (Finite 0)"
  "Color4 (Finite 0) (Finite 0) (Finite 0) (Finite 0) = Color4_gray (Finite 0)"
  by (simp_all add: Color4_gray_def zero_float_def)

lemma center_shift: "\<bar>i\<bar> \<le> 2 ^ 24 \<Longrightarrow> fsub (center i) (Finite (1 / 2)) = Finite (of_int i)"
  by (simp add: center_def fsub_def round32_int)

lemma int_of_float_int:
  "- (2 ^ 31) \<le> i \<Longrightarrow> i < 2 ^ 31 \<Longrightarrow> int_of_float (Finite (of_int i)) = Inr i"
  by (simp add: int_of_float_def)

lemma fsub_self_int: "fsub (Finite (of_int i)) (Finite (of_int i)) = Finite 0"
  by (simp add: fsub_def)

lemma lerp_0: "is_Color4 a \<Longrightarrow> finiteC b \<Longrightarrow> lerp a b (Finite 0) = a"
  by (simp add: lerp_def fsub_def one_float_def scaleC_one scaleC_zero addC_zero)

lemma bilinear_center:
  assumes b: "in_bounds img i j" and i: "i < 2 ^ 23" and j: "j < 2 ^ 23"
    and c: "is_Color4 (data img i j)"
    and taps: "\<forall>p \<in> set (bilinear_taps img i j mX mY). finiteC p"
  shows "bilinear img (center i) (center j) mX mY = Inr (data img i j)"
proof -
  have d: "0 < width img" "0 < height img"
    using b by (auto simp: in_bounds_def)
  have r: "0 \<le> i" "0 \<le> j"
    using b by (auto simp: in_bounds_def)
  have ai: "\<bar>i\<bar> \<le> 2 ^ 24" "\<bar>j\<bar> \<le> 2 ^ 24"
    using r i j by auto
  have ri: "- (2 ^ 31) \<le> i" "i < 2 ^ 31" "- (2 ^ 31) \<le> j" "j < 2 ^ 31"
    using r i j by auto
  have s: "add32 i 1 = i + 1" "add32 j 1 = j + 1"
    using r i j by (auto intro!: add32_id)
  have f: "finiteC (pixelv img (i + 1) j mX mY)" "finiteC (pixelv img i (j + 1) mX mY)"
    "finiteC (pixelv img (i + 1) (j + 1) mX mY)"
    using taps by (simp_all add: bilinear_taps_def)
  have l1: "lerp (data img i j) (pixelv img (i + 1) j mX mY) (Finite 0) = data img i j"
    by (rule lerp_0 [OF c f(1)])
  have l2: "lerp (pixelv img i (j + 1) mX mY) (pixelv img (i + 1) (j + 1) mX mY) (Finite 0) =
      pixelv img i (j + 1) mX mY"
    by (rule lerp_0 [OF finiteC_is_Color4 [OF f(2)] f(3)])
  have l3: "lerp (data img i j) (pixelv img i (j + 1) mX mY) (Finite 0) = data img i j"
    by (rule lerp_0 [OF c f(2)])
  show ?thesis
    by (simp add: bilinear_def center_shift [OF ai(1)] center_shift [OF ai(2)]
        int_of_float_int [OF ri(1,2)] int_of_float_int [OF ri(3,4)] s Let_def
        float_of_int_id [OF ai(1)] float_of_int_id [OF ai(2)] fsub_self_int
        pixel_defined [OF d] pixelv_in_bounds [OF b] l1 l2 l3)
qed

lemmas round32_consts =
  round32_quarters [of 5, simplified] round32_quarters [of 9, simplified]
  round32_quarters [of "- 9", simplified] round32_quarters [of "- 15", simplified]
  round32_quarters [of "- 3", simplified]
  round32_halves [of 9, simplified] round32_halves [of "- 3", simplified]

lemma cubic_weight_0: "cubic_weight (Finite 0) = Finite 1"
  and cubic_weight_1: "cubic_weight (Finite 1) = Finite 0"
  and cubic_weight_2: "cubic_weight (Finite 2) = Finite 0"
  by (simp_all add: cubic_weight_def one_float_def fsub_def round32_consts)

lemma tap_weight:
  assumes "0 \<le> i" and "i < 2 ^ 23"
  shows "cubic_weight (fabs (fsub (Finite (of_int i)) (float_of_int (i - 1)))) = Finite 0"
    and "cubic_weight (fabs (fsub (Finite (of_int i)) (float_of_int i))) = Finite 1"
    and "cubic_weight (fabs (fsub (Finite (of_int i)) (float_of_int (i + 1)))) = Finite 0"
    and "cubic_weight (fabs (fsub (Finite (of_int i)) (float_of_int (i + 2)))) = Finite 0"
proof -
  have a: "\<bar>i - 1\<bar> \<le> 2 ^ 24" "\<bar>i\<bar> \<le> 2 ^ 24" "\<bar>i + 1\<bar> \<le> 2 ^ 24" "\<bar>i + 2\<bar> \<le> 2 ^ 24"
    using assms by auto
  show "cubic_weight (fabs (fsub (Finite (of_int i)) (float_of_int (i - 1)))) = Finite 0"
    by (simp add: float_of_int_id [OF a(1)] fsub_def cubic_weight_1)
  show "cubic_weight (fabs (fsub (Finite (of_int i)) (float_of_int i))) = Finite 1"
    by (simp add: float_of_int_id [OF a(2)] fsub_def cubic_weight_0)
  show "cubic_weight (fabs (fsub (Finite (of_int i)) (float_of_int (i + 1)))) = Finite 0"
    by (simp add: float_of_int_id [OF a(3)] fsub_def cubic_weight_1)
  show "cubic_weight (fabs (fsub (Finite (of_int i)) (float_of_int (i + 2)))) = Finite 0"
    by (simp add: float_of_int_id [OF a(4)] fsub_def cubic_weight_2)
qed

text \<open>
  One row of taps around a pixel centre.  In a row of weight 0 every tap has weight 0 and
  the accumulator stays as it is; in the row of the pixel the taps at distance 1 and 2 have
  weight 0 and the tap at the centre has weight 1.
\<close>

lemma bicubic_row_zero:
  assumes d: "0 < width img" "0 < height img" and i: "0 \<le> i" "i < 2 ^ 23"
    and f: "finiteC (pixelv img (i - 1) y mX mY)" "finiteC (pixelv img i y mX mY)"
      "finiteC (pixelv img (i + 1) y mX mY)" "finiteC (pixelv img (i + 2) y mX mY)"
    and acc: "is_Color4 val" "is_float tw"
  shows "bicubic_row img (Finite (of_int i)) (Finite 0) y mX mY [i - 1, i, i + 1, i + 2] (val, tw) =
    Inr (val, tw)"
  by (simp add: pixel_defined [OF d] tap_weight [OF i] Let_def scaleC_zero f
      addC_zero [OF acc(1)] fadd_zero [OF acc(2)])

lemma bicubic_row_one:
  assumes d: "0 < width img" "0 < height img" and i: "0 \<le> i" "i < 2 ^ 23"
    and f: "finiteC (pixelv img (i - 1) y mX mY)"
      "finiteC (pixelv img (i + 1) y mX mY)" "finiteC (pixelv img (i + 2) y mX mY)"
    and c: "is_Color4 (pixelv img i y mX mY)"
  shows "bicubic_row img (Finite (of_int i)) (Finite 1) y mX mY [i - 1, i, i + 1, i + 2]
      (Color4_gray (Finite 0), Finite 0) = Inr (pixelv img i y mX mY, Finite 1)"
  by (simp add: pixel_defined [OF d] tap_weight [OF i] Let_def scaleC_zero f
      addC_zero addC_zero_left scaleC_one c)

lemma bicubic_taps_mem:
  "x \<in> {i - 1..i + 2} \<Longrightarrow> y \<in> {j - 1..j + 2} \<Longrightarrow> (x, y) \<noteq> (i, j) \<Longrightarrow>
   pixelv img x y mX mY \<in> set (bicubic_taps img i j mX mY)"
  apply (simp add: bicubic_taps_def)
  apply (rule bexI [of _ y])
   apply (rule bexI [of _ x])
    apply simp_all
  done

lemma bicubic_center:
  assumes b: "in_bounds img i j" and i: "i < 2 ^ 23" and j: "j < 2 ^ 23"
    and c: "is_Color4 (data img i j)"
    and taps: "\<forall>p \<in> set (bicubic_taps img i j mX mY). finiteC p"
  shows "bicubic img (center i) (center j) mX mY = Inr (data img i j)"
proof -
  have d: "0 < width img" "0 < height img"
    using b by (auto simp: in_bounds_def)
  have r: "0 \<le> i" "0 \<le> j"
    using b by (auto simp: in_bounds_def)
  have ai: "\<bar>i\<bar> \<le> 2 ^ 24" "\<bar>j\<bar> \<le> 2 ^ 24"
    using r i j by auto
  have ri: "- (2 ^ 31) \<le> i" "i < 2 ^ 31" "- (2 ^ 31) \<le> j" "j < 2 ^ 31"
    using r i j by auto
  have s: "sub32 i 1 = i - 1" "add32 i 3 = i + 3" "sub32 j 1 = j - 1" "add32 j 3 = j + 3"
    using r i j by (auto intro!: add32_id sub32_id)
  have f: "finiteC (pixelv img x y mX mY)"
    if "x \<in> {i - 1..i + 2}" "y \<in> {j - 1..j + 2}" "(x, y) \<noteq> (i, j)" for x y
    using taps bicubic_taps_mem [OF that] by blast
  let ?z = "(Color4_gray (Finite 0), Finite 0)"
  let ?row = "\<lambda>w y. bicubic_row img (Finite (of_int i)) w y mX mY [i - 1, i, i + 1, i + 2]"
  have c': "is_Color4 (pixelv img i j mX mY)"
    using c by (simp add: pixelv_in_bounds [OF b])
  have r0: "?row (Finite 0) (j - 1) ?z = Inr ?z"
    by (intro bicubic_row_zero [OF d r(1) i] f) simp_all
  have f1: "finiteC (pixelv img (i - 1) j mX mY)" "finiteC (pixelv img (i + 1) j mX mY)"
    "finiteC (pixelv img (i + 2) j mX mY)"
    by (rule f; simp)+
  have r1: "?row (Finite 1) j ?z = Inr (data img i j, Finite 1)"
    using bicubic_row_one [OF d r(1) i f1 c'] by (simp add: pixelv_in_bounds [OF b])
  have r2: "?row (Finite 0) (j + 1) (data img i j, Finite 1) = Inr (data img i j, Finite 1)"
    by (intro bicubic_row_zero [OF d r(1) i] f c) simp_all
  have r3: "?row (Finite 0) (j + 2) (data img i j, Finite 1) = Inr (data img i j, Finite 1)"
    by (intro bicubic_row_zero [OF d r(1) i] f c) simp_all
  have rows: "bicubic_rows img (Finite (of_int i)) (Finite (of_int j)) i mX mY
      [j - 1, j, j + 1, j + 2] ?z = Inr (data img i j, Finite 1)"
    by (simp add: s upto4' tap_weight [OF r(2) j] r0 r1 r2 r3 del: bicubic_row.simps)
  show ?thesis
    by (simp add: bicubic_def center_shift [OF ai(1)] center_shift [OF ai(2)]
        int_of_float_int [OF ri(1,2)] int_of_float_int [OF ri(3,4)] s upto4' zeroC
        zero_float_def one_float_def rows scaleC_one [OF c]
        del: bicubic_rows.simps)
qed

text \<open>
  C5, as the code has it.  At the centre \<open>(i + 0.5, j + 0.5)\<close> of an in-range pixel
  (\<open>i, j < 2^23\<close>, so that the centre is a \<open>float\<close>) the bilinear and the bicubic sampler
  return the stored pixel \<open>(i, j)\<close>, under every pair of border modes, provided the other
  taps they read (three, and fifteen) hold finite values: the weights of those taps are
  exactly 0, that of the centre and the total weight are exactly 1, and no step rounds.
\<close>

theorem sample_at_pixel_center:
  assumes "in_bounds img i j" and "i < 2 ^ 23" and "j < 2 ^ 23" and "is_Color4 (data img i j)"
  shows "((\<forall>p \<in> set (bilinear_taps img i j mX mY). finiteC p) \<longrightarrow>
            bilinear img (center i) (center j) mX mY = Inr (data img i j)) \<and>
         ((\<forall>p \<in> set (bicubic_taps img i j mX mY). finiteC p) \<longrightarrow>
            bicubic img (center i) (center j) mX mY = Inr (data img i j))"
  using bilinear_center [OF assms] bicubic_center [OF assms] by blast

lemma finiteC_img21: "finiteC (pixelv img21 x y mX mY)"
proof -
  have s: "finiteC (data img21 x' y')" for x' y'
    using is_float_int [of 1] is_float_int [of 2] is_float_int [of 3] is_float_int [of 4]
      is_float_int [of 5] is_float_int [of 6] is_float_int [of 7] is_float_int [of 8]
    by (simp add: img21_def finiteC_def)
  have z: "finiteC g_blackPixel"
    by (simp add: g_blackPixel_def finiteC_def zero_float_def)
  have "0 < width img21" "0 < height img21"
    by (simp_all add: img21_def)
  from pixelv_cases [OF this, of x y mX mY] show ?thesis
    using s z by auto
qed

theorem sample_at_pixel_center_witness:
  "in_bounds img21 1 0 \<and> (1::int) < 2 ^ 23 \<and> (0::int) < 2 ^ 23 \<and> is_Color4 (data img21 1 0) \<and>
   list_all finiteC (bilinear_taps img21 1 0 MIRROR BLACK) \<and>
   bilinear img21 (center 1) (center 0) MIRROR BLACK =
     Inr (Color4 (Finite 5) (Finite 6) (Finite 7) (Finite 8)) \<and>
   list_all finiteC (bicubic_taps img21 1 0 MIRROR BLACK) \<and>
   bicubic img21 (center 1) (center 0) MIRROR BLACK =
     Inr (Color4 (Finite 5) (Finite 6) (Finite 7) (Finite 8))"
proof -
  have b: "in_bounds img21 1 0"
    by (simp add: in_bounds_def img21_def)
  have r: "(1::int) < 2 ^ 23" "(0::int) < 2 ^ 23"
    by simp_all
  have c: "is_Color4 (data img21 1 0)"
    using finiteC_is_Color4 [OF finiteC_img21 [of 1 0 EDGE EDGE]]
    by (simp add: pixelv_in_bounds [OF b])
  have t1: "\<forall>p \<in> set (bilinear_taps img21 1 0 MIRROR BLACK). finiteC p"
    by (simp add: bilinear_taps_def finiteC_img21)
  have t2: "\<forall>p \<in> set (bicubic_taps img21 1 0 MIRROR BLACK). finiteC p"
    by (auto simp: bicubic_taps_def finiteC_img21)
  have d: "data img21 1 0 = Color4 (Finite 5) (Finite 6) (Finite 7) (Finite 8)"
    by (simp add: img21_def)
  show ?thesis
    using b r c t1 t2 sample_at_pixel_center [OF b r c, of MIRROR BLACK]
    unfolding d list_all_iff by blast
qed

text \<open>
  C5, as stated, fails on a raster with an infinity next to the pixel: the tap has weight
  0, and \<open>0 * Inf\<close> is NaN, which the sums then carry to every channel.  Here the pixel is
  the middle one of a 3 by 1 raster, with the value 1.
\<close>

theorem sample_at_center_infinite_tap:
  "in_bounds img31 1 0 \<and> data img31 1 0 = Color4_gray (Finite 1) \<and>
   bilinear img31 (center 1) (center 0) EDGE EDGE = Inr (Color4_gray NaN) \<and>
   bicubic img31 (center 1) (center 0) EDGE EDGE = Inr (Color4_gray NaN)"
proof -
  have b: "in_bounds img31 1 0"
    by (simp add: in_bounds_def img31_def)
  have d: "0 < width img31" "0 < height img31"
    by (simp_all add: img31_def)
  have p: "pixelv img31 x y EDGE EDGE = (if 2 \<le> x then Color4_gray PInf else Color4_gray (Finite 1))"
    for x y
    by (auto simp: pixelv_def pixel_def wrapCoord_def clamp_def coeff_def in_bounds_def img31_def)
  have a: "\<bar>1::int\<bar> \<le> 2 ^ 24" "\<bar>0::int\<bar> \<le> 2 ^ 24"
    by simp_all
  have s: "add32 1 1 = 2" "add32 0 1 = 1" "sub32 1 1 = 0" "add32 1 3 = 4" "sub32 0 1 = - 1"
    "add32 0 3 = 3"
    by (simp_all add: add32_def sub32_def wrap32_def)
  have i: "int_of_float (Finite 1) = Inr 1" "int_of_float (Finite 0) = Inr 0"
    by (simp_all add: int_of_float_def)
  have f: "float_of_int 1 = Finite 1" "float_of_int 0 = Finite 0" "float_of_int 2 = Finite 2"
    "float_of_int 3 = Finite 3" "float_of_int (- 1) = Finite (- 1)"
    using float_of_int_id [of 1] float_of_int_id [of 0] float_of_int_id [of 2]
      float_of_int_id [of 3] float_of_int_id [of "- 1"] by simp_all
  have c: "fsub (center 1) (Finite (1 / 2)) = Finite 1" "fsub (center 0) (Finite (1 / 2)) = Finite 0"
    using center_shift [OF a(1)] center_shift [OF a(2)] by simp_all
  have bl: "bilinear img31 (center 1) (center 0) EDGE EDGE = Inr (Color4_gray NaN)"
    by (simp add: bilinear_def c i s f Let_def pixel_defined [OF d] p lerp_def)
      (simp add: fsub_def one_float_def scaleC_def addC_def Color4_gray_def)
  have l: "[0..3] = [0, 1, 2, 3::int]" "[- 1..2] = [- 1, 0, 1, 2::int]"
    by (simp_all add: upto_rec1)
  have w: "cubic_weight (fabs (fsub (Finite 1) (Finite 0))) = Finite 0"
    "cubic_weight (fabs (fsub (Finite 1) (Finite 1))) = Finite 1"
    "cubic_weight (fabs (fsub (Finite 1) (Finite 2))) = Finite 0"
    "cubic_weight (fabs (fsub (Finite 1) (Finite 3))) = Finite 0"
    "cubic_weight (fabs (fsub (Finite 0) (Finite (- 1)))) = Finite 0"
    "cubic_weight (fabs (fsub (Finite 0) (Finite 0))) = Finite 1"
    "cubic_weight (fabs (fsub (Finite 0) (Finite 1))) = Finite 0"
    "cubic_weight (fabs (fsub (Finite 0) (Finite 2))) = Finite 0"
    by (simp_all add: fsub_def cubic_weight_0 cubic_weight_1 cubic_weight_2)
  have bc: "bicubic img31 (center 1) (center 0) EDGE EDGE = Inr (Color4_gray NaN)"
    by (simp add: bicubic_def c i s f l w Let_def pixel_defined [OF d] p)
      (simp add: zero_float_def one_float_def scaleC_def addC_def Color4_gray_def)
  show ?thesis
    using b bl bc by (simp add: img31_def)
qed

section \<open>The sliding window of boxBlurredX\<close>

lemma set_coeff_upd: "in_bounds img x y \<Longrightarrow> set_coeff img x y v = Inr (upd img x y v)"
  by (simp add: set_coeff_def upd_def)

lemma upd_simps [simp]:
  "width (upd img x y v) = width img"
  "height (upd img x y v) = height img"
  "data (upd img x y v) i j = (if i = x \<and> j = y then v else data img i j)"
  "in_bounds (upd img x y v) i j = in_bounds img i j"
  by (simp_all add: upd_def in_bounds_def)

lemma upd_upd [simp]: "upd (upd img x y a) x y b = upd img x y b"
  by (simp add: upd_def fun_eq_iff)

lemma upd_same [simp]: "upd img x y (data img x y) = img"
  by (cases img) (auto simp: upd_def fun_eq_iff)



























section \<open>The median filter\<close>

lemma forder_less: "u \<noteq> NaN \<Longrightarrow> v \<noteq> NaN \<Longrightarrow> fless u v = (forder u < forder v)"
  by (cases u; cases v) simp_all

lemma forder_le: "u \<noteq> NaN \<Longrightarrow> v \<noteq> NaN \<Longrightarrow> fle u v = (forder u \<le> forder v)"
  by (cases u; cases v) simp_all

lemma sort_key_nth_order_statistic:
  assumes "k < length xs" and "NaN \<notin> set xs"
  shows "order_statistic xs k (sort_key forder xs ! k)"
proof -
  let ?ys = "sort_key forder xs"
  let ?v = "?ys ! k"
  have len: "length ?ys = length xs" by simp
  have srt: "sorted (map forder ?ys)" by simp
  have cnt: "length (filter P xs) = length (filter P ?ys)" for P
  proof -
    have "mset (filter P xs) = mset (filter P ?ys)" by simp
    then show ?thesis by (metis size_mset)
  qed
  have mem: "?v \<in> set xs"
    using assms(1) by (metis len nth_mem set_sort)
  have nn: "u \<noteq> NaN" if "u \<in> set ?ys" for u
    using that assms(2) by auto
  have vn: "?v \<noteq> NaN" using mem assms(2) by auto
  have mono: "forder (?ys ! i) \<le> forder (?ys ! j)" if "i \<le> j" "j < length ?ys" for i j
    using sorted_nth_mono [OF srt, of i j] that by simp
  have split: "?ys = take k ?ys @ drop k ?ys" by simp
  have hi: "filter (\<lambda>u. fless u ?v) (drop k ?ys) = []"
  proof -
    have "\<forall>u \<in> set (drop k ?ys). \<not> fless u ?v"
    proof
      fix u assume u: "u \<in> set (drop k ?ys)"
      then obtain i where i: "i < length (drop k ?ys)" "u = drop k ?ys ! i"
        by (metis in_set_conv_nth)
      then have "u = ?ys ! (k + i)" "k + i < length ?ys" by simp_all
      then have "forder ?v \<le> forder u" using mono [of k "k + i"] by simp
      moreover have "u \<noteq> NaN" using in_set_dropD [OF u] by (rule nn)
      ultimately show "\<not> fless u ?v" using vn by (simp add: forder_less)
    qed
    then show ?thesis by (simp add: filter_empty_conv)
  qed
  have "length (filter (\<lambda>u. fless u ?v) ?ys) = length (filter (\<lambda>u. fless u ?v) (take k ?ys))"
    by (subst split) (simp only: filter_append hi append_Nil2)
  also have "\<dots> \<le> length (take k ?ys)" by (rule length_filter_le)
  also have "\<dots> \<le> k" by simp
  finally have lo: "length (filter (\<lambda>u. fless u ?v) xs) \<le> k" by (simp only: cnt)
  have all: "filter (\<lambda>u. fle u ?v) (take (Suc k) ?ys) = take (Suc k) ?ys"
  proof -
    have "\<forall>u \<in> set (take (Suc k) ?ys). fle u ?v"
    proof
      fix u assume u: "u \<in> set (take (Suc k) ?ys)"
      then obtain i where i: "i < length (take (Suc k) ?ys)" "u = take (Suc k) ?ys ! i"
        by (metis in_set_conv_nth)
      then have "u = ?ys ! i" "i \<le> k" by simp_all
      then have "forder u \<le> forder ?v" using mono [of i k] assms(1) by simp
      moreover have "u \<noteq> NaN" using in_set_takeD [OF u] by (rule nn)
      ultimately show "fle u ?v" using vn by (simp add: forder_le)
    qed
    then show ?thesis by (simp add: filter_id_conv)
  qed
  have "Suc k = length (take (Suc k) ?ys)" using assms(1) by simp
  also have "\<dots> = length (filter (\<lambda>u. fle u ?v) (take (Suc k) ?ys))" by (simp only: all)
  also have "\<dots> \<le> length (filter (\<lambda>u. fle u ?v) (take (Suc k) ?ys @ drop (Suc k) ?ys))"
    by (simp only: filter_append length_append le_add1)
  also have "\<dots> = length (filter (\<lambda>u. fle u ?v) ?ys)" by simp
  finally have "k < length (filter (\<lambda>u. fle u ?v) xs)" by (simp only: cnt)
  then show ?thesis using mem lo by (simp add: order_statistic_def)
qed

lemma channel_valid:
  "chan \<in> {0, 1, 2, 3} \<Longrightarrow> channel p chan = Inr (chanv p chan)"
  by (auto simp: channel_def chanv_def)

lemma set_channel_valid:
  "chan \<in> {0, 1, 2, 3} \<Longrightarrow> set_channel p chan v = Inr (with_channel p chan v)"
  by (auto simp: set_channel_def with_channel_def)


lemma channel_with_channel:
  "chan \<in> {0, 1, 2, 3} \<Longrightarrow> channel (with_channel p chan v) chan = Inr v"
  by (auto simp: channel_def with_channel_def set_channel_def)

lemma channel_with_channel_other:
  "c \<noteq> chan \<Longrightarrow> channel (with_channel p chan v) c = channel p c"
  by (auto simp: channel_def with_channel_def set_channel_def)

lemma square_bound:
  fixes i :: int
  assumes "\<bar>i\<bar> \<le> 23170"
  shows "0 \<le> i * i" and "i * i \<le> 536848900"
proof -
  show "0 \<le> i * i" by simp
  have "\<bar>i\<bar> * \<bar>i\<bar> \<le> 23170 * 23170"
    using assms by (intro mult_mono) simp_all
  then show "i * i \<le> 536848900" by (simp add: abs_mult_self_eq)
qed

lemma squares32:
  fixes i j :: int
  assumes "\<bar>i\<bar> \<le> 23170" and "\<bar>j\<bar> \<le> 23170"
  shows "add32 (mul32 i i) (mul32 j j) = i * i + j * j"
proof -
  have i: "0 \<le> i * i" "i * i \<le> 536848900" by (rule square_bound [OF assms(1)])+
  have j: "0 \<le> j * j" "j * j \<le> 536848900" by (rule square_bound [OF assms(2)])+
  have p: "(2::int) ^ 31 = 2147483648" by simp
  have a: "mul32 i i = i * i" using i p by (intro mul32_id) linarith+
  have b: "mul32 j j = j * j" using j p by (intro mul32_id) linarith+
  show ?thesis
    unfolding a b using i j p by (intro add32_id) linarith+
qed

lemma gather_step:
  assumes "0 < width img" "0 < height img" "chan \<in> {0, 1, 2, 3}"
    and "\<bar>i\<bar> \<le> 23170" "\<bar>j\<bar> \<le> 23170"
  shows "medianFiltered_gather img radius chan mX mY rnd x y i j buf =
      Inr (buf @ (if \<not> (rnd \<and> fless (fmul radius radius) (float_of_int (i * i + j * j)))
                  then [chanv (pixelv img (add32 x i) (add32 y j) mX mY) chan] else []))"
  by (simp add: medianFiltered_gather_def pixel_defined [OF assms(1,2)]
      channel_valid [OF assms(3)] squares32 [OF assms(4,5)])

lemma gather_column:
  assumes "0 < width img" "0 < height img" "chan \<in> {0, 1, 2, 3}"
    and R: "\<bar>R\<bar> \<le> 23170" and i: "\<bar>i\<bar> \<le> 23170"
  shows "medianFiltered_gather_column img radius R chan mX mY rnd x y i buf =
     Inr (buf @ concat (map (\<lambda>j. if \<not> (rnd \<and> fless (fmul radius radius) (float_of_int (i * i + j * j)))
                  then [chanv (pixelv img (add32 x i) (add32 y j) mX mY) chan] else []) [- R..R]))"
proof -
  have n: "neg32 R = - R" using R by (intro neg32_id) auto
  show ?thesis
    unfolding medianFiltered_gather_column_def n
  proof (rule for_each_append)
    fix j buf assume "j \<in> set [- R..R]"
    then have "\<bar>j\<bar> \<le> 23170" using R by auto
    then show "medianFiltered_gather img radius chan mX mY rnd x y i j buf =
      Inr (buf @ (if \<not> (rnd \<and> fless (fmul radius radius) (float_of_int (i * i + j * j)))
                  then [chanv (pixelv img (add32 x i) (add32 y j) mX mY) chan] else []))"
      by (rule gather_step [OF assms(1,2,3) i])
  qed
qed

lemma gather_outer:
  assumes "0 < width img" "0 < height img" "chan \<in> {0, 1, 2, 3}" and R: "\<bar>R\<bar> \<le> 23170"
  shows "for_each [neg32 R..R]
           (medianFiltered_gather_column img radius R chan mX mY rnd x y) [] =
         Inr (gathered img chan mX mY x y (neighbourhood radius R rnd))"
proof -
  have n: "neg32 R = - R" using R by (intro neg32_id) auto
  have "for_each [- R..R]
           (medianFiltered_gather_column img radius R chan mX mY rnd x y) [] =
     Inr ([] @ concat (map (\<lambda>i. concat (map (\<lambda>j.
         if \<not> (rnd \<and> fless (fmul radius radius) (float_of_int (i * i + j * j)))
         then [chanv (pixelv img (add32 x i) (add32 y j) mX mY) chan] else []) [- R..R]))
       [- R..R]))"
  proof (rule for_each_append)
    fix i buf assume "i \<in> set [- R..R]"
    then have "\<bar>i\<bar> \<le> 23170" using R by auto
    then show "medianFiltered_gather_column img radius R chan mX mY rnd x y i buf =
      Inr (buf @ concat (map (\<lambda>j.
         if \<not> (rnd \<and> fless (fmul radius radius) (float_of_int (i * i + j * j)))
         then [chanv (pixelv img (add32 x i) (add32 y j) mX mY) chan] else []) [- R..R]))"
      by (rule gather_column [OF assms(1,2,3) R])
  qed
  also have "\<dots> = Inr (gathered img chan mX mY x y (neighbourhood radius R rnd))"
    by (simp add: gathered_def neighbourhood_def map_concat comp_def if_distrib [of "map _"]
        cong: if_cong)
  finally show ?thesis unfolding n .
qed

lemma round_even_nonneg: "0 \<le> q \<Longrightarrow> 0 \<le> round_even q"
  by (simp add: round_even_def Let_def)

lemma rne_nonneg: "0 \<le> x \<Longrightarrow> 0 \<le> rne x"
  by (simp add: rne_def round_even_nonneg)

lemma fmul_square_not_less: "\<not> fless (fmul (Finite r) (Finite r)) (Finite 0)"
  using rne_nonneg [of "r * r"] by (simp add: round32_def Let_def)

lemma neighbourhood_nonempty:
  assumes "0 \<le> R"
  shows "neighbourhood (Finite r) R rnd \<noteq> []"
proof -
  have "float_of_int (0 * 0 + 0 * 0) = Finite 0"
    by (simp add: float_of_int_def round32_0)
  then have "(0, 0) \<in> set (neighbourhood (Finite r) R rnd)"
    using assms fmul_square_not_less [of r] by (auto simp: neighbourhood_def)
  then show ?thesis by auto
qed

lemma neighbourhood_empty: "R < 0 \<Longrightarrow> neighbourhood radius R rnd = []"
  by (simp add: neighbourhood_def)

lemma length_offsets_row:
  "length (concat (map (\<lambda>j. if P i j then [(i, j)] else []) js)) \<le> length js"
  by (induction js) simp_all

lemma length_offsets:
  "length (concat (map (\<lambda>i. concat (map (\<lambda>j. if P i j then [(i, j)] else []) js)) is))
     \<le> length is * length js"
proof (induction "is")
  case Nil
  show ?case by simp
next
  case (Cons i "is")
  show ?case
    using Cons length_offsets_row [of P i js] by simp
qed

lemma length_neighbourhood:
  assumes "0 \<le> R" and "R \<le> 23169"
  shows "length (neighbourhood radius R rnd) \<le> 2147302921"
proof -
  have l: "length [- R..R] \<le> 46339" using assms by simp
  have "length (neighbourhood radius R rnd) \<le> length [- R..R] * length [- R..R]"
    unfolding neighbourhood_def by (rule length_offsets)
  also have "\<dots> \<le> 46339 * 46339" by (rule mult_le_mono [OF l l])
  finally show ?thesis by simp
qed

lemma capacity32:
  assumes "- 23170 \<le> R" and "R \<le> 23170"
  shows "mul32 (mul32 2 R) (mul32 2 R) = 4 * (R * R)" and "0 \<le> 4 * (R * R)"
    and "R < 0 \<Longrightarrow> 0 < 4 * (R * R)"
proof -
  have p: "(2::int) ^ 31 = 2147483648" by simp
  have a: "\<bar>R\<bar> \<le> 23170" using assms by simp
  have s: "0 \<le> R * R" "R * R \<le> 536848900" by (rule square_bound [OF a])+
  have m: "mul32 2 R = 2 * R" using assms p by (intro mul32_id) linarith+
  have e: "(2 * R) * (2 * R) = 4 * (R * R)" by simp
  have w: "wrap32 (4 * (R * R)) = 4 * (R * R)"
    using s p by (intro wrap32_id) linarith+
  show "mul32 (mul32 2 R) (mul32 2 R) = 4 * (R * R)"
    by (simp only: m) (simp only: mul32_def e w)
  show "0 \<le> 4 * (R * R)" using s by simp
  show "0 < 4 * (R * R)" if "R < 0" using that by (simp add: zero_less_mult_iff)
qed

lemma selected_read:
  assumes "length G \<le> 2147302921" and "G = [] \<Longrightarrow> 0 < capacity"
  shows "nth_element_at (unspecified x y) capacity G (sub32 (wrap32 (int (length G))) 1 sdiv 2) =
     Inr (selected unspecified x y G)"
proof (cases "G = []")
  case True
  have "sub32 (wrap32 0) 1 sdiv 2 = 0"
    by (simp add: sub32_def wrap32_def signed_divide_int_def)
  then show ?thesis
    using True assms(2) by (simp add: nth_element_at_def selected_def)
next
  case False
  then obtain m where m: "length G = Suc m" by (cases G) simp_all
  have w: "wrap32 (int (length G)) = int (length G)"
    using assms(1) by (intro wrap32_id) simp_all
  have s: "sub32 (int (length G)) 1 = int m"
    using assms(1) m by (simp add: sub32_def wrap32_id)
  have med: "int m sdiv 2 = int (m div 2)"
    by (simp add: sdiv_nonneg zdiv_int)
  have lt: "m div 2 < length G" by (simp add: m less_Suc_eq_le)
  show ?thesis
    unfolding w s med using False lt
    by (simp add: nth_element_at_def selected_def lower_median_def m)
qed

lemma medianFiltered_pixel_step:
  assumes dims: "width t = width img" "height t = height img"
    and inb: "in_bounds img x y"
    and chan: "chan \<in> {0, 1, 2, 3}"
    and R: "- 23170 \<le> R" "R \<le> 23169"
    and cap: "R < 0 \<Longrightarrow> 0 < capacity"
    and ne: "0 \<le> R \<Longrightarrow> neighbourhood radius R rnd \<noteq> []"
  shows "medianFiltered_pixel unspecified img radius R capacity chan mX mY rnd y x t =
     Inr (upd t x y (with_channel (data t x y) chan
            (selected unspecified x y (gathered img chan mX mY x y (neighbourhood radius R rnd)))))"
proof -
  have d: "0 < width img" "0 < height img"
    using inb by (auto simp: in_bounds_def)
  have a: "\<bar>R\<bar> \<le> 23170" using R by simp
  let ?G = "gathered img chan mX mY x y (neighbourhood radius R rnd)"
  have g: "for_each [neg32 R..R]
             (medianFiltered_gather_column img radius R chan mX mY rnd x y) [] = Inr ?G"
    by (rule gather_outer [OF d chan a])
  have len: "length ?G \<le> 2147302921"
  proof (cases "0 \<le> R")
    case True
    then show ?thesis using length_neighbourhood [OF True R(2)] by (simp add: gathered_def)
  next
    case False
    then show ?thesis by (simp add: gathered_def neighbourhood_empty)
  qed
  have c: "0 < capacity" if "?G = []"
  proof -
    have "R < 0" using that ne by (cases "0 \<le> R") (simp_all add: gathered_def)
    then show ?thesis by (rule cap)
  qed
  have nth: "nth_element_at (unspecified x y) capacity ?G (sub32 (wrap32 (int (length ?G))) 1 sdiv 2) =
     Inr (selected unspecified x y ?G)"
    using len c by (rule selected_read)
  have tb: "in_bounds t x y"
    using inb dims by (simp add: in_bounds_def)
  show ?thesis
    by (simp only: medianFiltered_pixel_def g bind_err_Inr Let_def nth coeff_def tb if_True
        set_channel_valid [OF chan] set_coeff_upd [OF tb])
qed

lemma medianFiltered_row_result:
  assumes dims: "width t = width img" "height t = height img"
    and y: "0 \<le> y" "y < height img"
    and pre: "\<And>i. data t i y = data img i y"
    and chan: "chan \<in> {0, 1, 2, 3}"
    and R: "- 23170 \<le> R" "R \<le> 23169"
    and ne: "0 \<le> R \<Longrightarrow> neighbourhood radius R rnd \<noteq> []"
  shows "\<exists>t'. medianFiltered_row unspecified img radius R chan mX mY rnd y t = Inr t' \<and>
      width t' = width img \<and> height t' = height img \<and>
      (\<forall>i j. data t' i j =
         (if j = y \<and> 0 \<le> i \<and> i < width img then median_at unspecified img radius R chan mX mY rnd i y
          else data t i j))"
proof -
  define I where "I k (s::HDRImage) \<longleftrightarrow> width s = width img \<and> height s = height img \<and>
      (\<forall>i j. data s i j =
         (if j = y \<and> 0 \<le> i \<and> i < k then median_at unspecified img radius R chan mX mY rnd i y
          else data t i j))" for k s
  have R': "R \<le> 23170" using R(2) by simp
  note cap = capacity32 [OF R(1) R']
  let ?body = "medianFiltered_pixel unspecified img radius R (4 * (R * R)) chan mX mY rnd y"
  have init: "I 0 t" using dims by (auto simp: I_def)
  have step: "\<exists>s'. ?body k s = Inr s' \<and> I (k + 1) s'"
    if "0 \<le> k" "k \<le> width t - 1" "I k s" for k s
  proof -
    have s: "width s = width img" "height s = height img"
      and sd: "\<And>i j. data s i j =
         (if j = y \<and> 0 \<le> i \<and> i < k then median_at unspecified img radius R chan mX mY rnd i y
          else data t i j)"
      using that(3) by (simp_all add: I_def)
    have inb: "in_bounds img k y"
      using that(1,2) y dims by (simp add: in_bounds_def)
    have cur: "data s k y = data img k y"
      by (simp add: sd pre)
    have "I (k + 1) (upd s k y (median_at unspecified img radius R chan mX mY rnd k y))"
      using s that(1) by (auto simp: I_def sd)
    then show ?thesis
      by (simp add: medianFiltered_pixel_step [OF s inb chan R cap(3) ne] cur median_at_def)
  qed
  have "\<exists>t'. for_each [0..width t - 1] ?body t = Inr t' \<and> I (max 0 (width t - 1 + 1)) t'"
  proof (rule for_each_upto [where I = I])
    show "I 0 t" by (rule init)
  next
    fix k s assume "0 \<le> k" "k \<le> width t - 1" "I k s"
    then show "\<exists>s'. ?body k s = Inr s' \<and> I (k + 1) s'"
      by (rule step)
  qed
  then obtain t' where t': "for_each [0..width t - 1] ?body t = Inr t'"
    "I (max 0 (width t - 1 + 1)) t'"
    by blast
  have r: "medianFiltered_row unspecified img radius R chan mX mY rnd y t = Inr t'"
    using cap(2) by (simp add: medianFiltered_row_def Let_def cap(1) t'(1))
  have "\<forall>i j. data t' i j =
         (if j = y \<and> 0 \<le> i \<and> i < width img then median_at unspecified img radius R chan mX mY rnd i y
          else data t i j)"
    using t'(2) dims by (auto simp: I_def)
  then show ?thesis using r t'(2) by (auto simp: I_def)
qed

lemma medianFiltered_result:
  assumes chan: "chan \<in> {0, 1, 2, 3}" and R: "- 23170 \<le> \<lceil>r\<rceil>" "\<lceil>r\<rceil> \<le> 23169"
  shows "\<exists>out. medianFiltered unspecified img (Finite r) chan mX mY rnd = Inr out \<and>
      width out = width img \<and> height out = height img \<and>
      (\<forall>i j. data out i j =
         (if in_bounds img i j then median_at unspecified img (Finite r) \<lceil>r\<rceil> chan mX mY rnd i j
          else data img i j))"
proof -
  define I where "I k (s::HDRImage) \<longleftrightarrow> width s = width img \<and> height s = height img \<and>
      (\<forall>i j. data s i j =
         (if 0 \<le> j \<and> j < k \<and> 0 \<le> i \<and> i < width img
          then median_at unspecified img (Finite r) \<lceil>r\<rceil> chan mX mY rnd i j
          else data img i j))" for k s
  let ?row = "medianFiltered_row unspecified img (Finite r) \<lceil>r\<rceil> chan mX mY rnd"
  have ne: "0 \<le> \<lceil>r\<rceil> \<Longrightarrow> neighbourhood (Finite r) \<lceil>r\<rceil> rnd \<noteq> []"
    by (rule neighbourhood_nonempty)
  have init: "I 0 img" by (auto simp: I_def)
  have step: "\<exists>s'. ?row k s = Inr s' \<and> I (k + 1) s'"
    if "0 \<le> k" "k \<le> height img - 1" "I k s" for k s
  proof -
    have s: "width s = width img" "height s = height img"
      and sd: "\<And>i j. data s i j =
         (if 0 \<le> j \<and> j < k \<and> 0 \<le> i \<and> i < width img
          then median_at unspecified img (Finite r) \<lceil>r\<rceil> chan mX mY rnd i j
          else data img i j)"
      using that(3) by (simp_all add: I_def)
    have y: "0 \<le> k" "k < height img" using that by simp_all
    have pre: "\<And>i. data s i k = data img i k" by (simp add: sd)
    obtain s' where s': "?row k s = Inr s'"
      "width s' = width img" "height s' = height img"
      "\<And>i j. data s' i j =
         (if j = k \<and> 0 \<le> i \<and> i < width img
          then median_at unspecified img (Finite r) \<lceil>r\<rceil> chan mX mY rnd i k
          else data s i j)"
      using medianFiltered_row_result [OF s y pre chan R ne, of unspecified mX mY] by blast
    have "I (k + 1) s'"
      using s'(2,3) that(1) by (auto simp: I_def s'(4) sd)
    then show ?thesis using s'(1) by auto
  qed
  have "\<exists>out. for_each [0..height img - 1] ?row img = Inr out \<and>
      I (max 0 (height img - 1 + 1)) out"
  proof (rule for_each_upto [where I = I])
    show "I 0 img" by (rule init)
  next
    fix k s assume "0 \<le> k" "k \<le> height img - 1" "I k s"
    then show "\<exists>s'. ?row k s = Inr s' \<and> I (k + 1) s'"
      by (rule step)
  qed
  then obtain out where out: "for_each [0..height img - 1] ?row img = Inr out"
    "I (max 0 (height img - 1 + 1)) out"
    by blast
  have p: "(2::int) ^ 31 = 2147483648" by simp
  have c: "int_of_float (Finite (of_int \<lceil>r\<rceil>)) = Inr \<lceil>r\<rceil>"
    using R p by (intro int_of_float_int) linarith+
  have "medianFiltered unspecified img (Finite r) chan mX mY rnd = Inr out"
    using out(1) by (simp add: medianFiltered_def Let_def c)
  moreover have "\<forall>i j. data out i j =
         (if in_bounds img i j then median_at unspecified img (Finite r) \<lceil>r\<rceil> chan mX mY rnd i j
          else data img i j)"
    using out(2) by (auto simp: I_def in_bounds_def)
  ultimately show ?thesis using out(2) by (auto simp: I_def)
qed

lemma medianFiltered_at:
  assumes "in_bounds img x y" and "chan \<in> {0, 1, 2, 3}" and "- 1 < r" and "\<lceil>r\<rceil> \<le> 23169"
  shows "\<exists>out. medianFiltered unspecified img (Finite r) chan mX mY rnd = Inr out \<and>
      channel (data out x y) chan =
        Inr (selected unspecified x y (gathered img chan mX mY x y (neighbourhood (Finite r) \<lceil>r\<rceil> rnd)))"
proof -
  have R: "- 23170 \<le> \<lceil>r\<rceil>" using assms(3) by (simp add: le_ceiling_iff)
  obtain out where out: "medianFiltered unspecified img (Finite r) chan mX mY rnd = Inr out"
    "\<And>i j. data out i j =
         (if in_bounds img i j then median_at unspecified img (Finite r) \<lceil>r\<rceil> chan mX mY rnd i j
          else data img i j)"
    using medianFiltered_result [OF assms(2) R assms(4), of unspecified img mX mY rnd] by blast
  have "channel (data out x y) chan =
        Inr (selected unspecified x y (gathered img chan mX mY x y (neighbourhood (Finite r) \<lceil>r\<rceil> rnd)))"
    using assms(1) by (simp add: out(2) median_at_def channel_with_channel [OF assms(2)])
  then show ?thesis using out(1) by blast
qed

lemma upto_m1_1: "[- 1..1] = [- 1, 0, 1 :: int]"
  by (simp add: upto_rec1)

lemma upto_m4_4: "[- 4..4] = [- 4, - 3, - 2, - 1, 0, 1, 2, 3, 4 :: int]"
  by (simp add: upto_rec1)

lemma neighbourhood_1: "neighbourhood radius 1 False =
  [(- 1, - 1), (- 1, 0), (- 1, 1), (0, - 1), (0, 0), (0, 1), (1, - 1), (1, 0), (1, 1)]"
  by (simp add: neighbourhood_def upto_m1_1)

lemma add32_small:
  "add32 1 (- 1) = 0" "add32 1 0 = 1" "add32 1 1 = 2" "add32 0 (- 1) = - 1" "add32 0 0 = 0"
  "add32 0 1 = 1"
  by (simp_all add: add32_def wrap32_def)

lemma gathered_img33:
  "gathered (img33 c outlier) 0 mX mY 1 1 (neighbourhood radius 1 False) =
     [c, c, c, c, outlier, c, c, c, c]"
proof -
  have p: "pixelv (img33 c outlier) i j mX mY = data (img33 c outlier) i j"
    if "0 \<le> i" "i < 3" "0 \<le> j" "j < 3" for i j
    using that by (intro pixelv_in_bounds) (simp add: in_bounds_def img33_def)
  show ?thesis
    by (simp add: gathered_def neighbourhood_1 add32_small p)
      (simp add: img33_def chanv_def channel_def Color4_gray_def)
qed

lemma forder_inj: "forder u = forder v \<Longrightarrow> u = v"
  by (cases u; cases v) simp_all

lemma lower_median_outlier:
  "lower_median [c, c, c, c, outlier, c, c, c, c] = c"
  by (cases "forder outlier \<le> forder c") (auto simp: lower_median_def dest: forder_inj)

lemma medianFiltered_img33:
  assumes "c \<noteq> NaN" and "outlier \<noteq> NaN"
  shows "\<exists>out. medianFiltered unspecified (img33 c outlier) 1 0 mX mY False = Inr out \<and>
     cr (data out 1 1) = c"
proof -
  have b: "in_bounds (img33 c outlier) 1 1"
    by (simp add: in_bounds_def img33_def)
  have ch: "(0::int) \<in> {0, 1, 2, 3}" by simp
  have r: "- 1 < (1::real)" "\<lceil>1::real\<rceil> \<le> 23169" by simp_all
  obtain out where out: "medianFiltered unspecified (img33 c outlier) (Finite 1) 0 mX mY False = Inr out"
    "channel (data out 1 1) 0 =
       Inr (selected unspecified 1 1
              (gathered (img33 c outlier) 0 mX mY 1 1 (neighbourhood (Finite 1) \<lceil>1::real\<rceil> False)))"
    using medianFiltered_at [OF b ch r, of unspecified mX mY False] by blast
  have "cr (data out 1 1) = c"
    using out(2) assms
    by (simp add: gathered_img33 selected_def lower_median_outlier channel_def)
  then show ?thesis using out(1) by (auto simp: one_float_def)
qed

text \<open>
  C7, as the code has it.  For a finite radius \<open>r\<close> with \<open>-1 < r\<close> and
  \<open>\<lceil>r\<rceil> \<le> 23169\<close>, at a pixel \<open>(x, y)\<close> of the raster where none of the values gathered
  is NaN, \<open>medianFiltered\<close> writes into the chosen channel the element of rank
  \<open>\<lfloor>(N - 1) / 2\<rfloor>\<close> of the \<open>N\<close> values gathered, which is an order statistic of that rank,
  whatever the unspecified reads give.  The values are those at the offsets of the square of
  half-extent \<open>\<lceil>r\<rceil>\<close>, of which, when \<open>round\<close> is set, the offsets with
  \<open>float (i\<^sup>2 + j\<^sup>2) > r * r\<close> are left out, the product rounded to single precision
  (\<open>gathered\<close>, \<open>neighbourhood\<close>).  With radius 1 and \<open>round\<close> off, on a 3 by 3 raster
  that is constant except for the centre, neither value NaN, the output at the centre is
  the constant.
\<close>

theorem medianFiltered_order_statistic:
  assumes "in_bounds img x y" and "chan \<in> {0, 1, 2, 3}" and "- 1 < r" and "\<lceil>r\<rceil> \<le> 23169"
    and "NaN \<notin> set (gathered img chan mX mY x y (neighbourhood (Finite r) \<lceil>r\<rceil> rnd))"
  shows "(\<exists>out. medianFiltered unspecified img (Finite r) chan mX mY rnd = Inr out \<and>
            (let G = gathered img chan mX mY x y (neighbourhood (Finite r) \<lceil>r\<rceil> rnd); N = length G
             in channel (data out x y) chan = Inr (sort_key forder G ! ((N - 1) div 2)) \<and>
                order_statistic G ((N - 1) div 2) (sort_key forder G ! ((N - 1) div 2)))) \<and>
         (c \<noteq> NaN \<and> outlier \<noteq> NaN \<longrightarrow>
            (\<exists>out. medianFiltered unspecified (img33 c outlier) 1 0 mX mY False = Inr out \<and>
               cr (data out 1 1) = c))"
proof -
  let ?G = "gathered img chan mX mY x y (neighbourhood (Finite r) \<lceil>r\<rceil> rnd)"
  have R: "0 \<le> \<lceil>r\<rceil>" using assms(3) by (simp add: zero_le_ceiling)
  have ne: "?G \<noteq> []"
    using neighbourhood_nonempty [OF R, of r rnd] by (simp add: gathered_def)
  then have "0 < length ?G" by simp
  then have "(length ?G - 1) div 2 < length ?G"
    by (cases "length ?G") (simp_all add: less_Suc_eq_le)
  then have os: "order_statistic ?G ((length ?G - 1) div 2) (sort_key forder ?G ! ((length ?G - 1) div 2))"
    using assms(5) by (rule sort_key_nth_order_statistic)
  have sel: "selected unspecified x y ?G = sort_key forder ?G ! ((length ?G - 1) div 2)"
    using ne assms(5) by (simp add: selected_def lower_median_def)
  show ?thesis
    using medianFiltered_at [OF assms(1,2,3,4), of unspecified mX mY rnd] os
      medianFiltered_img33 [of c outlier unspecified mX mY]
    by (simp add: sel Let_def)
qed

lemma gathered_img21:
  "gathered img21 0 EDGE EDGE 1 0 (neighbourhood radius 1 False) =
     [Finite 1, Finite 1, Finite 1, Finite 5, Finite 5, Finite 5, Finite 5, Finite 5, Finite 5]"
proof -
  have p: "pixelv img21 i j EDGE EDGE =
      (if i \<le> 0 then Color4 (Finite 1) (Finite 2) (Finite 3) (Finite 4)
       else Color4 (Finite 5) (Finite 6) (Finite 7) (Finite 8))" for i j
    by (auto simp: pixelv_def pixel_def wrapCoord_def clamp_def coeff_def in_bounds_def img21_def)
  show ?thesis
    by (simp add: gathered_def neighbourhood_1 add32_small p chanv_def channel_def)
qed

theorem medianFiltered_order_statistic_witness:
  "in_bounds img21 1 0 \<and> (0::int) \<in> {0, 1, 2, 3} \<and> - 1 < (1::real) \<and> \<lceil>1::real\<rceil> \<le> 23169 \<and>
   NaN \<notin> set (gathered img21 0 EDGE EDGE 1 0 (neighbourhood (Finite 1) \<lceil>1::real\<rceil> False)) \<and>
   (\<exists>out. medianFiltered no_value img21 (Finite 1) 0 EDGE EDGE False = Inr out \<and>
      channel (data out 1 0) 0 = Inr (Finite 5))"
proof -
  have b: "in_bounds img21 1 0"
    by (simp add: in_bounds_def img21_def)
  have ch: "(0::int) \<in> {0, 1, 2, 3}" by simp
  have r: "- 1 < (1::real)" "\<lceil>1::real\<rceil> \<le> 23169" by simp_all
  have n: "NaN \<notin> set (gathered img21 0 EDGE EDGE 1 0 (neighbourhood (Finite 1) \<lceil>1::real\<rceil> False))"
    by (simp add: gathered_img21)
  show ?thesis
    using b ch r n medianFiltered_order_statistic [OF b ch r n, of no_value 0 0]
    by (auto simp: gathered_img21 Let_def)
qed

lemma is_float_radius13: "is_float (Finite radius13)"
proof -
  have "rne (of_int 7561389 * 2 powi (- 21)) = of_int 7561389 * 2 powi (- 21)"
    by (rule rne_dyadic) simp_all
  then have "rne radius13 = radius13"
    by (simp add: radius13_def power_int_minus)
  then show ?thesis by (simp add: radius13_def)
qed

lemma radius13_square: "round32 (radius13 * radius13) = Finite 13"
proof -
  have "rne (radius13 * radius13) =
      of_int (round_even (radius13 * radius13 / 2 powi (3 - 23))) * 2 powi (3 - 23)"
    by (rule rne_eval) (simp_all add: radius13_def)
  also have "\<dots> = 13"
    by (simp add: radius13_def round_even_def Let_def power_int_minus)
  finally show ?thesis by (simp add: round32_def)
qed

lemma ceiling_radius13: "\<lceil>radius13\<rceil> = 4"
  by (simp add: radius13_def ceiling_eq_iff)

lemma neighbourhood_radius13:
  "neighbourhood (Finite radius13) 4 True =
     [(i, j). i \<leftarrow> [- 4..4], j \<leftarrow> [- 4..4], i * i + j * j \<le> 13]"
  unfolding neighbourhood_def upto_m4_4
  by (simp add: radius13_square float_of_int_def)

lemma neighbourhood_spec_radius13:
  "neighbourhood_spec radius13 True =
     [(i, j). i \<leftarrow> [- 4..4], j \<leftarrow> [- 4..4], i * i + j * j \<le> 12]"
  unfolding neighbourhood_spec_def ceiling_radius13 upto_m4_4
  by (simp add: radius13_def)

lemma pixelv_img99:
  assumes "0 \<le> i" "i < 9" "0 \<le> j" "j < 9"
  shows "pixelv img99 i j mX mY = data img99 i j"
  using assms by (intro pixelv_in_bounds) (simp add: in_bounds_def img99_def)

lemma chanv_gray: "chanv (Color4_gray v) 0 = v"
  by (simp add: chanv_def channel_def Color4_gray_def)

lemma median_img99_float:
  "selected unspecified 4 4
     (gathered img99 0 EDGE EDGE 4 4 [(i, j). i \<leftarrow> [- 4..4], j \<leftarrow> [- 4..4], i * i + j * j \<le> 13]) =
   Finite 1"
  unfolding upto_m4_4
  apply (simp add: gathered_def add32_def wrap32_def pixelv_img99)
  apply (simp add: img99_def chanv_gray zero_float_def one_float_def)
  apply (simp add: selected_def lower_median_def)
  done

lemma median_img99_exact:
  "lower_median
     (gathered img99 0 EDGE EDGE 4 4 [(i, j). i \<leftarrow> [- 4..4], j \<leftarrow> [- 4..4], i * i + j * j \<le> 12]) =
   Finite 0"
  unfolding upto_m4_4
  apply (simp add: gathered_def add32_def wrap32_def pixelv_img99)
  apply (simp add: img99_def chanv_gray zero_float_def one_float_def)
  apply (simp add: lower_median_def)
  done

text \<open>
  C7, as stated, fails where it takes the test of the round neighbourhood to be
  \<open>i\<^sup>2 + j\<^sup>2 \<le> radius\<^sup>2\<close>: the code compares in single precision.  For the \<open>float\<close>
  \<open>radius13\<close>, whose square is less than 13 and rounds to 13, the code gathers the 45
  offsets with \<open>i\<^sup>2 + j\<^sup>2 \<le> 13\<close>, and at the centre of \<open>img99\<close> it writes 1; the 37 offsets
  with \<open>i\<^sup>2 + j\<^sup>2 \<le> radius13\<^sup>2\<close> give the value 0 at rank \<open>\<lfloor>(37 - 1) / 2\<rfloor>\<close>.
\<close>

theorem medianFiltered_round_compares_floats:
  "is_float (Finite radius13) \<and> radius13 * radius13 < 13 \<and>
   length (neighbourhood (Finite radius13) \<lceil>radius13\<rceil> True) = 45 \<and>
   length (neighbourhood_spec radius13 True) = 37 \<and>
   (\<exists>out. medianFiltered no_value img99 (Finite radius13) 0 EDGE EDGE True = Inr out \<and>
      channel (data out 4 4) 0 = Inr (Finite 1)) \<and>
   lower_median (gathered img99 0 EDGE EDGE 4 4 (neighbourhood_spec radius13 True)) = Finite 0"
proof -
  have b: "in_bounds img99 4 4"
    by (simp add: in_bounds_def img99_def)
  have ch: "(0::int) \<in> {0, 1, 2, 3}" by simp
  have r: "- 1 < radius13" "\<lceil>radius13\<rceil> \<le> 23169"
    by (simp_all add: ceiling_radius13) (simp add: radius13_def)
  obtain out where out: "medianFiltered no_value img99 (Finite radius13) 0 EDGE EDGE True = Inr out"
    "channel (data out 4 4) 0 =
       Inr (selected no_value 4 4
              (gathered img99 0 EDGE EDGE 4 4 (neighbourhood (Finite radius13) \<lceil>radius13\<rceil> True)))"
    using medianFiltered_at [OF b ch r, of no_value EDGE EDGE True] by blast
  have v: "channel (data out 4 4) 0 = Inr (Finite 1)"
    by (simp only: out(2) ceiling_radius13 neighbourhood_radius13 median_img99_float)
  have l1: "length (neighbourhood (Finite radius13) \<lceil>radius13\<rceil> True) = 45"
    unfolding ceiling_radius13 neighbourhood_radius13 upto_m4_4 by simp
  have l2: "length (neighbourhood_spec radius13 True) = 37"
    unfolding neighbourhood_spec_radius13 upto_m4_4 by simp
  have sq: "radius13 * radius13 < 13" by (simp add: radius13_def)
  have e: "lower_median (gathered img99 0 EDGE EDGE 4 4 (neighbourhood_spec radius13 True)) = Finite 0"
    by (simp only: neighbourhood_spec_radius13 median_img99_exact)
  show ?thesis
    using is_float_radius13 sq l1 l2 out(1) v e by blast
qed

text \<open>
  C10, as the code has it.  For a channel index in 0..3 and a finite radius \<open>r\<close> with
  \<open>-23170 \<le> \<lceil>r\<rceil> \<le> 23169\<close>, \<open>medianFiltered\<close> returns a raster of the same dimensions whose
  channels other than the selected one are those of the input, at every pixel: for every
  raster, border modes and \<open>round\<close> flag, and whatever the unspecified reads give (for
  \<open>r \<le> -1\<close> the buffer is empty and the value written is read from the reserved storage).
\<close>

theorem medianFiltered_frame:
  assumes "chan \<in> {0, 1, 2, 3}" and "- 23170 \<le> \<lceil>r\<rceil>" and "\<lceil>r\<rceil> \<le> 23169"
  shows "\<exists>out. medianFiltered unspecified img (Finite r) chan mX mY rnd = Inr out \<and>
      width out = width img \<and> height out = height img \<and>
      (\<forall>x y c. c \<noteq> chan \<longrightarrow> channel (data out x y) c = channel (data img x y) c)"
proof -
  obtain out where out: "medianFiltered unspecified img (Finite r) chan mX mY rnd = Inr out"
    "width out = width img" "height out = height img"
    "\<And>i j. data out i j =
         (if in_bounds img i j then median_at unspecified img (Finite r) \<lceil>r\<rceil> chan mX mY rnd i j
          else data img i j)"
    using medianFiltered_result [OF assms, of unspecified img mX mY rnd] by blast
  have "channel (data out x y) c = channel (data img x y) c" if "c \<noteq> chan" for x y c
    using that by (simp add: out(4) median_at_def channel_with_channel_other)
  then show ?thesis using out(1,2,3) by blast
qed

theorem medianFiltered_frame_witness:
  "(0::int) \<in> {0, 1, 2, 3} \<and> - 23170 \<le> \<lceil>- 2::real\<rceil> \<and> \<lceil>- 2::real\<rceil> \<le> 23169 \<and>
   (\<exists>out. medianFiltered no_value img21 (Finite (- 2)) 0 EDGE EDGE True = Inr out \<and>
      width out = 2 \<and> height out = 1 \<and>
      channel (data out 1 0) 1 = Inr (Finite 6) \<and> channel (data out 1 0) 2 = Inr (Finite 7) \<and>
      channel (data out 1 0) 3 = Inr (Finite 8))"
proof -
  have ch: "(0::int) \<in> {0, 1, 2, 3}" by simp
  have r: "- 23170 \<le> \<lceil>- 2::real\<rceil>" "\<lceil>- 2::real\<rceil> \<le> 23169" by simp_all
  obtain out where out: "medianFiltered no_value img21 (Finite (- 2)) 0 EDGE EDGE True = Inr out"
    "width out = width img21" "height out = height img21"
    "\<And>x y c. c \<noteq> 0 \<Longrightarrow> channel (data out x y) c = channel (data img21 x y) c"
    using medianFiltered_frame [OF ch r, of no_value img21 EDGE EDGE True] by blast
  have "channel (data out 1 0) 1 = channel (data img21 1 0) 1"
    "channel (data out 1 0) 2 = channel (data img21 1 0) 2"
    "channel (data out 1 0) 3 = channel (data img21 1 0) 3"
    by (rule out(4), simp)+
  then have "channel (data out 1 0) 1 = Inr (Finite 6)" "channel (data out 1 0) 2 = Inr (Finite 7)"
    "channel (data out 1 0) 3 = Inr (Finite 8)"
    by (simp_all only: img21_def channel_def) simp_all
  then show ?thesis
    using out(1,2,3) ch r by (simp only: img21_def) simp
qed

text \<open>
  C10, as stated for every radius, fails: with radius 30000 the \<open>int\<close> product
  \<open>(2 * 30000) * (2 * 30000)\<close> passed to \<open>reserve\<close> wraps to a negative number, which as a
  \<open>size_t\<close> is beyond the largest vector, and \<open>medianFiltered\<close> leaves with
  \<open>length_error\<close> on a raster of one pixel.
\<close>

theorem medianFiltered_large_radius_throws:
  "in_bounds img11 0 0 \<and>
   mul32 (mul32 2 30000) (mul32 2 30000) = - 694967296 \<and>
   medianFiltered no_value img11 (Finite 30000) 0 EDGE EDGE False = Inl length_error"
  by (simp add: in_bounds_def img11_def medianFiltered_def medianFiltered_row_def int_of_float_def
      mul32_def wrap32_def Let_def)

section \<open>Placement on a resized canvas\<close>

lemma sdiv2_bounds:
  "d \<le> 0 \<Longrightarrow> d \<le> d sdiv 2 \<and> d sdiv 2 \<le> (0::int)"
  "0 \<le> d \<Longrightarrow> 0 \<le> d sdiv 2 \<and> d sdiv 2 \<le> (d::int)"
proof -
  show "d \<le> 0 \<Longrightarrow> d \<le> d sdiv 2 \<and> d sdiv 2 \<le> (0::int)"
    by (auto simp: signed_divide_int_def sgn_if)
  show "0 \<le> d \<Longrightarrow> 0 \<le> d sdiv 2 \<and> d sdiv 2 \<le> (d::int)"
    by (auto simp: signed_divide_int_def sgn_if)
qed

lemma tlDst_x_bounds:
  "newW \<le> oldW \<Longrightarrow> newW - oldW \<le> resizedCanvas_tlDst_x anchor newW oldW \<and>
      resizedCanvas_tlDst_x anchor newW oldW \<le> 0"
  "oldW \<le> newW \<Longrightarrow> 0 \<le> resizedCanvas_tlDst_x anchor newW oldW \<and>
      resizedCanvas_tlDst_x anchor newW oldW \<le> newW - oldW"
  using sdiv2_bounds [of "newW - oldW"]
  by (cases anchor; simp add: resizedCanvas_tlDst_x_def)+

lemma tlDst_y_bounds:
  "newH \<le> oldH \<Longrightarrow> newH - oldH \<le> resizedCanvas_tlDst_y anchor newH oldH \<and>
      resizedCanvas_tlDst_y anchor newH oldH \<le> 0"
  "oldH \<le> newH \<Longrightarrow> 0 \<le> resizedCanvas_tlDst_y anchor newH oldH \<and>
      resizedCanvas_tlDst_y anchor newH oldH \<le> newH - oldH"
  using sdiv2_bounds [of "newH - oldH"]
  by (cases anchor; simp add: resizedCanvas_tlDst_y_def)+

lemma resizedCanvas_result:
  assumes "0 \<le> newW" and "0 \<le> newH" and "0 \<le> width this" and "0 \<le> height this"
  shows "\<exists>out. resizedCanvas this newW newH anchor bgColor = Inr out \<and>
      width out = newW \<and> height out = newH \<and>
      (\<forall>x y. in_bounds out x y \<longrightarrow>
         data out x y =
           (if in_bounds this (x - resizedCanvas_tlDst_x anchor newW (width this))
                 (y - resizedCanvas_tlDst_y anchor newH (height this))
            then data this (x - resizedCanvas_tlDst_x anchor newW (width this))
                   (y - resizedCanvas_tlDst_y anchor newH (height this))
            else bgColor))"
proof -
  define ox where "ox = resizedCanvas_tlDst_x anchor newW (width this)"
  define oy where "oy = resizedCanvas_tlDst_y anchor newH (height this)"
  define dx where "dx = (if ox < 0 then 0 else ox)"
  define sx where "sx = (if ox < 0 then - ox else 0)"
  define dy where "dy = (if oy < 0 then 0 else oy)"
  define sy where "sy = (if oy < 0 then - oy else 0)"
  define bw where "bw = min (width this) newW"
  define bh where "bh = min (height this) newH"
  define canvas where "canvas = \<lparr>width = newW, height = newH, data = (\<lambda>i j. bgColor)\<rparr>"
  have bnd_x: "(newW \<le> width this \<longrightarrow> newW - width this \<le> ox \<and> ox \<le> 0) \<and>
            (width this \<le> newW \<longrightarrow> 0 \<le> ox \<and> ox \<le> newW - width this)"
    unfolding ox_def using tlDst_x_bounds by blast
  have bnd_y: "(newH \<le> height this \<longrightarrow> newH - height this \<le> oy \<and> oy \<le> 0) \<and>
            (height this \<le> newH \<longrightarrow> 0 \<le> oy \<and> oy \<le> newH - height this)"
    unfolding oy_def using tlDst_y_bounds by blast
  have fx: "0 \<le> dx" "0 \<le> sx" "0 \<le> bw" "dx + bw \<le> newW" "sx + bw \<le> width this" "dx - sx = ox"
    using bnd_x assms(1,3) by (auto simp: dx_def sx_def bw_def min_def)
  have fy: "0 \<le> dy" "0 \<le> sy" "0 \<le> bh" "dy + bh \<le> newH" "sy + bh \<le> height this" "dy - sy = oy"
    using bnd_y assms(2,4) by (auto simp: dy_def sy_def bh_def min_def)
  let ?out = "canvas\<lparr>data := (\<lambda>i j.
             if dx \<le> i \<and> i < dx + bw \<and> dy \<le> j \<and> j < dy + bh
             then data this (i - dx + sx) (j - dy + sy) else data canvas i j)\<rparr>"
  have cw: "width canvas = newW" "height canvas = newH" "\<And>i j. data canvas i j = bgColor"
    by (simp_all add: canvas_def)
  have blk: "block_assign canvas dx dy this sx sy bw bh = Inr ?out"
    using fx fy by (simp add: block_assign_def cw(1,2))
  have "resizedCanvas this newW newH anchor bgColor = block_assign canvas dx dy this sx sy bw bh"
    using assms(1,2)
    by (simp add: resizedCanvas_def Constant_def Let_def canvas_def
        ox_def oy_def dx_def sx_def dy_def sy_def bw_def bh_def)
  then have res: "resizedCanvas this newW newH anchor bgColor = Inr ?out"
    by (simp only: blk)
  have inx: "(dx \<le> x \<and> x < dx + bw) = (0 \<le> x - ox \<and> x - ox < width this)"
    if "0 \<le> x" "x < newW" for x
    using that bnd_x assms(1,3) by (auto simp: dx_def bw_def min_def)
  have iny: "(dy \<le> y \<and> y < dy + bh) = (0 \<le> y - oy \<and> y - oy < height this)"
    if "0 \<le> y" "y < newH" for y
    using that bnd_y assms(2,4) by (auto simp: dy_def bh_def min_def)
  have sh: "x - dx + sx = x - ox" "y - dy + sy = y - oy" for x y
    using fx(6) fy(6) by linarith+
  have "data ?out x y = (if in_bounds this (x - ox) (y - oy) then data this (x - ox) (y - oy) else bgColor)"
    if "in_bounds ?out x y" for x y
  proof -
    have r: "0 \<le> x" "x < newW" "0 \<le> y" "y < newH"
      using that by (simp_all add: in_bounds_def cw)
    have "(dx \<le> x \<and> x < dx + bw \<and> dy \<le> y \<and> y < dy + bh) = in_bounds this (x - ox) (y - oy)"
      using inx [OF r(1,2)] iny [OF r(3,4)] by (auto simp: in_bounds_def)
    then show ?thesis
      by (simp add: sh cw)
  qed
  moreover have "width ?out = newW" "height ?out = newH"
    by (simp_all add: cw)
  ultimately show ?thesis
    using res unfolding ox_def oy_def by blast
qed

lemma resizedCanvas_copied_block:
  assumes "0 \<le> newW" and "0 \<le> width this" and "0 \<le> x" and "x < newW"
  shows "(0 \<le> x - resizedCanvas_tlDst_x anchor newW (width this) \<and>
          x - resizedCanvas_tlDst_x anchor newW (width this) < width this) =
         (max 0 (resizedCanvas_tlDst_x anchor newW (width this)) \<le> x \<and>
          x < max 0 (resizedCanvas_tlDst_x anchor newW (width this)) + min (width this) newW)"
  using tlDst_x_bounds [where anchor = anchor and newW = newW and oldW = "width this"] assms
  by (auto simp: min_def max_def)


lemma sdiv2_cases:
  "(d::int) sdiv 2 = (if 0 \<le> d then d div 2 else - ((- d) div 2))"
  by (simp add: signed_divide_int_def sgn_if)

lemma tlDst_x_cases:
  "resizedCanvas_tlDst_x anchor newW oldW =
     (if anchor \<in> {TOP_RIGHT, MIDDLE_RIGHT, BOTTOM_RIGHT} then newW - oldW
      else if anchor \<in> {TOP_CENTER, MIDDLE_CENTER, BOTTOM_CENTER}
        then (if oldW \<le> newW then (newW - oldW) div 2 else - ((oldW - newW) div 2))
      else 0)"
  by (cases anchor) (simp_all add: resizedCanvas_tlDst_x_def sdiv2_cases)

lemma tlDst_y_cases:
  "resizedCanvas_tlDst_y anchor newH oldH =
     (if anchor \<in> {BOTTOM_LEFT, BOTTOM_CENTER, BOTTOM_RIGHT} then newH - oldH
      else if anchor \<in> {MIDDLE_LEFT, MIDDLE_CENTER, MIDDLE_RIGHT}
        then (if oldH \<le> newH then (newH - oldH) div 2 else - ((oldH - newH) div 2))
      else 0)"
  by (cases anchor) (simp_all add: resizedCanvas_tlDst_y_def sdiv2_cases)

lemma resizedCanvas_copied_rows:
  assumes "0 \<le> newH" and "0 \<le> height this" and "0 \<le> y" and "y < newH"
  shows "(0 \<le> y - resizedCanvas_tlDst_y anchor newH (height this) \<and>
          y - resizedCanvas_tlDst_y anchor newH (height this) < height this) =
         (max 0 (resizedCanvas_tlDst_y anchor newH (height this)) \<le> y \<and>
          y < max 0 (resizedCanvas_tlDst_y anchor newH (height this)) + min (height this) newH)"
  using tlDst_y_bounds [where anchor = anchor and newH = newH and oldH = "height this"] assms
  by (auto simp: min_def max_def)

text \<open>
  C9, as the code has it.  \<open>resizedCanvas\<close> returns a \<open>newW\<close> by \<open>newH\<close> raster that is the
  old raster shifted by the offset \<open>(offX, offY)\<close> and \<open>bgColor\<close> elsewhere; the cells taken
  from the old raster are the block of \<open>min oldW newW\<close> by \<open>min oldH newH\<close> cells at
  \<open>(max 0 offX, max 0 offY)\<close>.  The offset is \<open>newW - oldW\<close> for the RIGHT anchors, 0 for
  the LEFT anchors, and for the CENTER anchors half the difference rounded towards zero:
  \<open>\<lfloor>(newW - oldW) / 2\<rfloor>\<close> when the canvas grows and \<open>- \<lfloor>(oldW - newW) / 2\<rfloor>\<close> when it shrinks;
  likewise for BOTTOM, TOP and MIDDLE.
\<close>

theorem resizedCanvas_placement:
  assumes "0 \<le> newW" and "0 \<le> newH" and "0 \<le> width this" and "0 \<le> height this"
  shows "(let offX = resizedCanvas_tlDst_x anchor newW (width this);
              offY = resizedCanvas_tlDst_y anchor newH (height this)
          in (\<exists>out. resizedCanvas this newW newH anchor bgColor = Inr out \<and>
                width out = newW \<and> height out = newH \<and>
                (\<forall>x y. in_bounds out x y \<longrightarrow>
                   data out x y =
                     (if in_bounds this (x - offX) (y - offY)
                      then data this (x - offX) (y - offY) else bgColor) \<and>
                   in_bounds this (x - offX) (y - offY) =
                     (max 0 offX \<le> x \<and> x < max 0 offX + min (width this) newW \<and>
                      max 0 offY \<le> y \<and> y < max 0 offY + min (height this) newH))) \<and>
             offX =
               (if anchor \<in> {TOP_RIGHT, MIDDLE_RIGHT, BOTTOM_RIGHT} then newW - width this
                else if anchor \<in> {TOP_CENTER, MIDDLE_CENTER, BOTTOM_CENTER}
                  then (if width this \<le> newW then (newW - width this) div 2
                        else - ((width this - newW) div 2))
                else 0) \<and>
             offY =
               (if anchor \<in> {BOTTOM_LEFT, BOTTOM_CENTER, BOTTOM_RIGHT} then newH - height this
                else if anchor \<in> {MIDDLE_LEFT, MIDDLE_CENTER, MIDDLE_RIGHT}
                  then (if height this \<le> newH then (newH - height this) div 2
                        else - ((height this - newH) div 2))
                else 0))"
proof -
  let ?ox = "resizedCanvas_tlDst_x anchor newW (width this)"
  let ?oy = "resizedCanvas_tlDst_y anchor newH (height this)"
  obtain out where out: "resizedCanvas this newW newH anchor bgColor = Inr out"
    "width out = newW" "height out = newH"
    "\<And>x y. in_bounds out x y \<Longrightarrow> data out x y =
       (if in_bounds this (x - ?ox) (y - ?oy) then data this (x - ?ox) (y - ?oy) else bgColor)"
    using resizedCanvas_result [OF assms, of anchor bgColor] by blast
  have blk: "in_bounds this (x - ?ox) (y - ?oy) =
      (max 0 ?ox \<le> x \<and> x < max 0 ?ox + min (width this) newW \<and>
       max 0 ?oy \<le> y \<and> y < max 0 ?oy + min (height this) newH)"
    if "in_bounds out x y" for x y
  proof -
    have r: "0 \<le> x" "x < newW" "0 \<le> y" "y < newH"
      using that out(2,3) by (simp_all add: in_bounds_def)
    show ?thesis
      using resizedCanvas_copied_block [OF assms(1,3) r(1,2), of anchor]
        resizedCanvas_copied_rows [OF assms(2,4) r(3,4), of anchor]
      unfolding in_bounds_def by blast
  qed
  have "\<exists>out. resizedCanvas this newW newH anchor bgColor = Inr out \<and>
                width out = newW \<and> height out = newH \<and>
                (\<forall>x y. in_bounds out x y \<longrightarrow>
                   data out x y =
                     (if in_bounds this (x - ?ox) (y - ?oy)
                      then data this (x - ?ox) (y - ?oy) else bgColor) \<and>
                   in_bounds this (x - ?ox) (y - ?oy) =
                     (max 0 ?ox \<le> x \<and> x < max 0 ?ox + min (width this) newW \<and>
                      max 0 ?oy \<le> y \<and> y < max 0 ?oy + min (height this) newH))"
    using out blk by blast
  then show ?thesis
    using tlDst_x_cases [of anchor newW "width this"] tlDst_y_cases [of anchor newH "height this"]
    unfolding Let_def by blast
qed

theorem resizedCanvas_placement_witness:
  "(0::int) \<le> 2 \<and> (0::int) \<le> 1 \<and> 0 \<le> width img51 \<and> 0 \<le> height img51 \<and>
   (\<exists>out. resizedCanvas img51 2 1 TOP_CENTER g_blackPixel = Inr out \<and>
      width out = 2 \<and> height out = 1 \<and>
      data out 0 0 = Color4_gray (Finite 2) \<and> data out 1 0 = Color4_gray (Finite 3))"
proof -
  have a: "(0::int) \<le> 2" "(0::int) \<le> 1" "0 \<le> width img51" "0 \<le> height img51"
    by (simp_all add: img51_def)
  have ox: "resizedCanvas_tlDst_x TOP_CENTER 2 (width img51) = - 1"
    by (simp add: resizedCanvas_tlDst_x_def img51_def signed_divide_int_def)
  have oy: "resizedCanvas_tlDst_y TOP_CENTER 1 (height img51) = 0"
    by (simp add: resizedCanvas_tlDst_y_def)
  obtain out where out: "resizedCanvas img51 2 1 TOP_CENTER g_blackPixel = Inr out"
    "width out = 2" "height out = 1"
    "\<And>x y. in_bounds out x y \<Longrightarrow> data out x y =
       (if in_bounds img51 (x - (- 1)) (y - 0) then data img51 (x - (- 1)) (y - 0)
        else g_blackPixel)"
    using resizedCanvas_placement [OF a, of TOP_CENTER g_blackPixel]
    unfolding Let_def ox oy by blast
  have b: "in_bounds out 0 0" "in_bounds out 1 0"
    using out(2,3) by (simp_all add: in_bounds_def)
  have "data out 0 0 = Color4_gray (Finite 2)" "data out 1 0 = Color4_gray (Finite 3)"
    using out(4) [OF b(1)] out(4) [OF b(2)] by (simp_all add: in_bounds_def img51_def)
  then show ?thesis
    using a out(1,2,3) by blast
qed

text \<open>
  C9, as stated, fails for a CENTER anchor on a canvas that shrinks by an odd amount: from
  width 5 to width 2 the offset is \<open>-1\<close>, not \<open>\<lfloor>-3/2\<rfloor> = -2\<close>, and the first column of the
  result is column 1 of the old raster, not column 2.
\<close>

theorem resizedCanvas_center_offset_truncates:
  "resizedCanvas_tlDst_x TOP_CENTER 2 5 = - 1 \<and>
   \<lfloor>(2 - 5) / (2::real)\<rfloor> = - 2 \<and>
   data (projr (resizedCanvas img51 2 1 TOP_CENTER g_blackPixel)) 0 0 = data img51 1 0 \<and>
   data img51 1 0 \<noteq> data img51 (0 - \<lfloor>(2 - 5) / (2::real)\<rfloor>) 0"
proof -
  have f: "\<lfloor>(2 - 5) / (2::real)\<rfloor> = - 2"
    by (simp add: floor_eq_iff) 
  have o: "resizedCanvas_tlDst_x TOP_CENTER 2 5 = - 1"
    by (simp add: resizedCanvas_tlDst_x_def signed_divide_int_def)
  have r: "data (projr (resizedCanvas img51 2 1 TOP_CENTER g_blackPixel)) 0 0 = data img51 1 0"
    by (simp add: resizedCanvas_def Constant_def block_assign_def Let_def img51_def
        resizedCanvas_tlDst_x_def resizedCanvas_tlDst_y_def signed_divide_int_def)
  have n: "data img51 1 0 \<noteq> data img51 (0 - (- 2)) 0"
    by (simp add: img51_def Color4_gray_def)
  show ?thesis
    using o r n unfolding f by simp
qed

section \<open>Undo and redo\<close>

lemma waitForAsyncResult_idle:
  "m_asyncCommand g = None \<or> m_asyncRetrieved g \<Longrightarrow> waitForAsyncResult finished g = (False, g)"
  by (auto simp: waitForAsyncResult_def split: option.splits)

text \<open>
  An edit that is still outstanding is joined first, and its record is then on the undo
  stack: \<open>undo\<close> succeeds even if the stack was empty when it was called.
\<close>

lemma undo_joins_pending_edit:
  assumes "m_asyncCommand g = Some task" and "\<not> m_asyncRetrieved g"
  shows "fst (undo finished g)"
proof -
  have "undoStack (m_history (snd (waitForAsyncResult finished g))) \<noteq> []"
    using assms
    by (simp add: waitForAsyncResult_def Let_def GLImage_uploadToGPU_def
        CommandHistory_addCommand_def split: prod.splits)
  then show ?thesis
    by (cases "undoStack (m_history (snd (waitForAsyncResult finished g)))")
      (simp_all add: undo_def CommandHistory_undo_def Let_def)
qed

text \<open>
  C4.  \<open>undo\<close> (\<open>redo\<close>) first joins an outstanding edit; if the undo (redo) stack is
  then empty it returns false and changes nothing else, and otherwise it returns true
  and both the histogram cache and the texture are marked dirty.  Neither can raise.
  With no edit outstanding the stack is the one at the time of the call.
\<close>

theorem undo_redo_result:
  "(let g1 = snd (waitForAsyncResult finished g)
    in (undoStack (m_history g1) = [] \<longrightarrow> undo finished g = (False, g1)) \<and>
       (undoStack (m_history g1) \<noteq> [] \<longrightarrow>
          fst (undo finished g) \<and> m_histogramDirty (snd (undo finished g)) \<and>
          m_dirty (m_texture (snd (undo finished g)))) \<and>
       (redoStack (m_history g1) = [] \<longrightarrow> redo finished g = (False, g1)) \<and>
       (redoStack (m_history g1) \<noteq> [] \<longrightarrow>
          fst (redo finished g) \<and> m_histogramDirty (snd (redo finished g)) \<and>
          m_dirty (m_texture (snd (redo finished g)))) \<and>
       (m_asyncCommand g = None \<or> m_asyncRetrieved g \<longrightarrow> g1 = g))"
proof -
  define g1 where "g1 = snd (waitForAsyncResult finished g)"
  have u0: "undo finished g = (False, g1)" if "undoStack (m_history g1) = []"
    using that by (simp add: undo_def CommandHistory_undo_def g1_def [symmetric])
  have u1: "fst (undo finished g) \<and> m_histogramDirty (snd (undo finished g)) \<and>
          m_dirty (m_texture (snd (undo finished g)))" if "undoStack (m_history g1) \<noteq> []"
    using that
    by (cases "undoStack (m_history g1)")
      (simp_all add: undo_def CommandHistory_undo_def g1_def [symmetric]
        LazyGLTextureLoader_setDirty_def)
  have r0: "redo finished g = (False, g1)" if "redoStack (m_history g1) = []"
    using that by (simp add: redo_def CommandHistory_redo_def g1_def [symmetric])
  have r1: "fst (redo finished g) \<and> m_histogramDirty (snd (redo finished g)) \<and>
          m_dirty (m_texture (snd (redo finished g)))" if "redoStack (m_history g1) \<noteq> []"
    using that
    by (cases "redoStack (m_history g1)")
      (simp_all add: redo_def CommandHistory_redo_def g1_def [symmetric]
        LazyGLTextureLoader_setDirty_def)
  have idle: "g1 = g" if "m_asyncCommand g = None \<or> m_asyncRetrieved g"
    using waitForAsyncResult_idle [OF that, of finished] by (simp add: g1_def)
  show ?thesis
    unfolding Let_def g1_def [symmetric] using u0 u1 r0 r1 idle by blast
qed

theorem undo_redo_result_witness:
  "undo True glimage_fresh = (False, glimage_fresh) \<and>
   redo True glimage_fresh = (False, glimage_fresh) \<and>
   fst (undo True glimage_edited) \<and>
   m_histogramDirty (snd (undo True glimage_edited)) \<and>
   m_dirty (m_texture (snd (undo True glimage_edited))) \<and>
   fst (redo True (snd (undo True glimage_edited))) \<and>
   m_histogramDirty (snd (redo True (snd (undo True glimage_edited)))) \<and>
   m_dirty (m_texture (snd (redo True (snd (undo True glimage_edited)))))"
proof -
  have i0: "snd (waitForAsyncResult True glimage_fresh) = glimage_fresh"
    by (simp add: waitForAsyncResult_def glimage_fresh_def)
  have i1: "snd (waitForAsyncResult True glimage_edited) = glimage_edited"
    by (simp add: waitForAsyncResult_def glimage_edited_def glimage_fresh_def)
  define g2 where "g2 = snd (undo True glimage_edited)"
  have g2: "g2 = glimage_fresh\<lparr>m_image := emptyImage,
     m_history := \<lparr>undoStack = [], redoStack = [fullImageUndo emptyImage img21]\<rparr>,
     m_histogramDirty := True, m_texture := \<lparr>m_dirty = True, m_texture_allocated = True\<rparr>\<rparr>"
    by (simp add: g2_def undo_def i1 CommandHistory_undo_def LazyGLTextureLoader_setDirty_def
        fullImageUndo_def)
      (simp add: glimage_edited_def glimage_fresh_def fullImageUndo_def
        LazyGLTextureLoader_setDirty_def)
  have i2: "snd (waitForAsyncResult True g2) = g2"
    by (simp add: waitForAsyncResult_def g2 glimage_fresh_def)
  have e0: "undoStack (m_history glimage_fresh) = []" "redoStack (m_history glimage_fresh) = []"
    by (simp_all add: glimage_fresh_def)
  have e1: "undoStack (m_history glimage_edited) \<noteq> []"
    by (simp add: glimage_edited_def)
  have e2: "redoStack (m_history g2) \<noteq> []"
    by (simp add: g2)
  show ?thesis
    using undo_redo_result [of True glimage_fresh] undo_redo_result [of True glimage_edited]
      undo_redo_result [of True g2] e0 e1 e2
    unfolding Let_def i0 i1 i2 g2_def [symmetric] by blast
qed

section \<open>AHD arbitration and the border\<close>




































end
